theory Spec2Isabelle
  imports Complex_Main "HOL-Library.AList" "HOL-Library.Sublist"
begin

section \<open>JavaScript values\<close>

text \<open>
  Keys, cached values and default values are JavaScript values. The model covers the
  acyclic JSON trees: \<open>null\<close>, booleans, integer-valued numbers (of magnitude at most
  \<open>2^53\<close>, which a JavaScript number holds exactly), strings of 8-bit characters, arrays
  and objects (a list of properties in property order).
  \<open>undefined\<close>, functions, non-integer numbers and cyclic objects are outside the model;
  an absent option is \<open>None\<close>.
\<close>

datatype jsval =
    JNull
  | JBool bool
  | JNum int
  | JStr string
  | JArr "jsval list"
  | JObj "(string \<times> jsval) list"

text \<open>The truth value JavaScript gives a value in \<open>x || y\<close> and \<open>if (x)\<close>.\<close>

fun truthy :: "jsval \<Rightarrow> bool" where
  "truthy JNull = False"
| "truthy (JBool b) = b"
| "truthy (JNum n) = (n \<noteq> 0)"
| "truthy (JStr s) = (s \<noteq> [])"
| "truthy (JArr xs) = True"
| "truthy (JObj ps) = True"

text \<open>\<open>typeof x === 'object'\<close>; it holds of \<open>null\<close> too.\<close>

fun typeof_object :: "jsval \<Rightarrow> bool" where
  "typeof_object JNull = True"
| "typeof_object (JArr xs) = True"
| "typeof_object (JObj ps) = True"
| "typeof_object v = False"

text \<open>
  \<open>JSON.stringify\<close>, \<open>JSON.parse\<close> and \<open>setTimeout\<close> belong to the JavaScript
  platform, not to the repository, so every operation takes them as a parameter.
  \<open>json_parse\<close> gives \<open>None\<close> where \<open>JSON.parse\<close> throws a SyntaxError. On the trees
  of \<^typ>\<open>jsval\<close> \<open>JSON.stringify\<close> returns a string and does not throw.
  \<open>timer_delay ms\<close> is the time after which the platform is ready to run a callback
  that \<open>setTimeout\<close> was given with the delay \<open>ms\<close>.
\<close>

record jsplatform =
  json_stringify :: "jsval \<Rightarrow> string"
  json_parse :: "string \<Rightarrow> jsval option"
  timer_delay :: "int \<Rightarrow> int"

section \<open>CacheManager\<close>

record cache_options =
  defaultTTL :: int
  maxSize :: int
  compressionEnabled :: bool
  encryptionEnabled :: bool

record cache_entry =
  e_data :: jsval
  e_timestamp :: nat
  e_ttl :: int
  e_expiresAt :: int
  e_priority :: string
  e_tags :: "string list"
  e_size :: nat
  e_compressed :: bool
  e_encrypted :: bool

record cache_statistics =
  hits :: nat
  misses :: nat
  sets :: nat
  deletes :: nat
  evictions :: nat
  totalSize :: int

text \<open>
  The four \<open>Map\<close>s of a CacheManager are association lists in insertion order, which is
  the order a JavaScript \<open>Map\<close> iterates in: \<open>Map.set\<close> is \<^const>\<open>AList.update\<close>
  (an existing key keeps its place, a new key goes to the end), \<open>Map.delete\<close> is
  \<^const>\<open>AList.delete\<close>, \<open>Map.get\<close> is \<^const>\<open>map_of\<close>. Times are milliseconds as
  \<open>Date.now()\<close> gives them; every operation takes the reading of the clock as its
  argument \<open>now\<close>.

  A handle of \<open>setTimeout\<close> in \<open>this.timers\<close> is pending, with the time from which the
  platform may run its callback and the key that the callback deletes, or it is cleared,
  by \<open>clearTimeout\<close> or because the callback ran.
\<close>

datatype timer = Pending int jsval | Cleared

record cache_manager =
  options :: cache_options
  cache :: "(string \<times> cache_entry) list"
  timers :: "(string \<times> timer) list"
  accessTimes :: "(string \<times> nat) list"
  hitCount :: "(string \<times> nat) list"
  statistics :: cache_statistics

definition new_statistics :: cache_statistics where
  "new_statistics =
     \<lparr>hits = 0, misses = 0, sets = 0, deletes = 0, evictions = 0, totalSize = 0\<rparr>"

text \<open>The state the constructor leaves, for the options after their defaults are filled in.\<close>

definition new_cache :: "cache_options \<Rightarrow> cache_manager" where
  "new_cache opts =
     \<lparr>options = opts, cache = [], timers = [], accessTimes = [], hitCount = [],
      statistics = new_statistics\<rparr>"

definition normalizeKey :: "jsplatform \<Rightarrow> jsval \<Rightarrow> string" where
  "normalizeKey P key = (case key of JStr s \<Rightarrow> s | _ \<Rightarrow> json_stringify P key)"

definition denormalizeKey :: "jsplatform \<Rightarrow> string \<Rightarrow> jsval" where
  "denormalizeKey P key = (case json_parse P key of Some v \<Rightarrow> v | None \<Rightarrow> JStr key)"

definition isExpired :: "nat \<Rightarrow> cache_entry \<Rightarrow> bool" where
  "isExpired now entry \<longleftrightarrow> e_expiresAt entry > 0 \<and> int now > e_expiresAt entry"

definition cloneData :: "jsplatform \<Rightarrow> jsval \<Rightarrow> jsval" where
  "cloneData P data =
     (if data = JNull \<or> \<not> typeof_object data then data
      else (case json_parse P (json_stringify P data) of
              Some copy \<Rightarrow> copy
            | None \<Rightarrow> data))"

definition calculateSize :: "jsplatform \<Rightarrow> jsval \<Rightarrow> nat" where
  "calculateSize P data = length (json_stringify P data)"

text \<open>\<open>compress\<close>, \<open>encrypt\<close> and the storage methods are placeholders in the source:
  the first two return their argument, the others do nothing.\<close>

definition compress :: "jsval \<Rightarrow> jsval" where
  "compress data = data"

definition encrypt :: "jsval \<Rightarrow> jsval" where
  "encrypt data = data"

definition delete_op :: "jsplatform \<Rightarrow> jsval \<Rightarrow> cache_manager \<Rightarrow> bool \<times> cache_manager" where
  "delete_op P key s =
     (let cacheKey = normalizeKey P key in
      case map_of (cache s) cacheKey of
        None \<Rightarrow> (False, s)
      | Some entry \<Rightarrow>
          (True,
           s\<lparr>timers := AList.delete cacheKey (timers s),
             cache := AList.delete cacheKey (cache s),
             accessTimes := AList.delete cacheKey (accessTimes s),
             hitCount := AList.delete cacheKey (hitCount s),
             statistics := (statistics s)
               \<lparr>deletes := deletes (statistics s) + 1,
                totalSize := totalSize (statistics s) - int (e_size entry)\<rparr>\<rparr>))"

text \<open>
  The score of \<open>evictLeastUsed\<close>, in exact arithmetic. \<open>Map.get(key) || 0\<close> is \<open>0\<close> for
  a missing key.
\<close>

definition lookup0 :: "(string \<times> nat) list \<Rightarrow> string \<Rightarrow> nat" where
  "lookup0 m key = (case map_of m key of Some n \<Rightarrow> n | None \<Rightarrow> 0)"

definition priorityWeight :: "string \<Rightarrow> nat" where
  "priorityWeight p = (if p = ''high'' then 3 else if p = ''normal'' then 2 else 1)"

definition score :: "cache_manager \<Rightarrow> string \<Rightarrow> cache_entry \<Rightarrow> rat" where
  "score s key entry =
     of_nat (lookup0 (hitCount s) key + 1) * of_nat (priorityWeight (e_priority entry))
       * (of_nat (lookup0 (accessTimes s) key) / 1000)"

text \<open>
  The loop of \<open>evictLeastUsed\<close> over \<open>cache.entries()\<close>. The accumulator is
  \<open>(leastUsedKey, leastUsedScore)\<close>; \<open>None\<close> is the initial \<open>(null, Infinity)\<close>, below
  which every score lies.
\<close>

fun leastUsed_loop ::
  "cache_manager \<Rightarrow> (string \<times> cache_entry) list \<Rightarrow> (string \<times> rat) option
     \<Rightarrow> (string \<times> rat) option" where
  "leastUsed_loop s [] best = best"
| "leastUsed_loop s ((key, entry) # rest) best =
     (if (case best of None \<Rightarrow> True | Some (k, least) \<Rightarrow> score s key entry < least)
      then leastUsed_loop s rest (Some (key, score s key entry))
      else leastUsed_loop s rest best)"

text \<open>\<open>if (leastUsedKey)\<close> fails for \<open>null\<close> and for the empty string.\<close>

definition evictLeastUsed :: "jsplatform \<Rightarrow> cache_manager \<Rightarrow> cache_manager" where
  "evictLeastUsed P s =
     (case leastUsed_loop s (cache s) None of
        None \<Rightarrow> s
      | Some (leastUsedKey, least) \<Rightarrow>
          if leastUsedKey \<noteq> [] then
            (let s1 = snd (delete_op P (denormalizeKey P leastUsedKey) s) in
             s1\<lparr>statistics := (statistics s1)\<lparr>evictions := evictions (statistics s1) + 1\<rparr>\<rparr>)
          else s)"

text \<open>\<open>if (this.timers.has(cacheKey)) clearTimeout(this.timers.get(cacheKey))\<close>: the handle
  stays in the \<open>Map\<close>.\<close>

definition clear_timer :: "string \<Rightarrow> (string \<times> timer) list \<Rightarrow> (string \<times> timer) list" where
  "clear_timer cacheKey ts =
     (case map_of ts cacheKey of Some t \<Rightarrow> AList.update cacheKey Cleared ts | None \<Rightarrow> ts)"

record set_options =
  so_ttl :: "int option"
  so_priority :: "string option"
  so_tags :: "string list option"

text \<open>\<open>options.ttl || this.options.defaultTTL\<close> and its siblings: a missing option and a
  falsy one both give the default.\<close>

definition ttl_of :: "cache_manager \<Rightarrow> set_options \<Rightarrow> int" where
  "ttl_of s opts =
     (case so_ttl opts of
        Some t \<Rightarrow> if t \<noteq> 0 then t else defaultTTL (options s)
      | None \<Rightarrow> defaultTTL (options s))"

definition priority_of :: "set_options \<Rightarrow> string" where
  "priority_of opts =
     (case so_priority opts of
        Some p \<Rightarrow> if p \<noteq> [] then p else ''normal''
      | None \<Rightarrow> ''normal'')"

definition tags_of :: "set_options \<Rightarrow> string list" where
  "tags_of opts = (case so_tags opts of Some ts \<Rightarrow> ts | None \<Rightarrow> [])"

definition set_op ::
  "jsplatform \<Rightarrow> jsval \<Rightarrow> jsval \<Rightarrow> set_options \<Rightarrow> nat \<Rightarrow> cache_manager
     \<Rightarrow> bool \<times> cache_manager" where
  "set_op P key val opts now s =
     (let cacheKey = normalizeKey P key;
          ttl = ttl_of s opts;
          priority = priority_of opts;
          tags = tags_of opts;
          s1 = (if int (length (cache s)) \<ge> maxSize (options s)
                   \<and> map_of (cache s) cacheKey = None
                then evictLeastUsed P s else s);
          entry0 = \<lparr>e_data = cloneData P val, e_timestamp = now, e_ttl = ttl,
                    e_expiresAt = int now + ttl, e_priority = priority, e_tags = tags,
                    e_size = calculateSize P val, e_compressed = False,
                    e_encrypted = False\<rparr>;
          entry1 = (if compressionEnabled (options s1) \<and> e_size entry0 > 1024
                    then entry0\<lparr>e_data := compress (e_data entry0), e_compressed := True\<rparr>
                    else entry0);
          entry = (if encryptionEnabled (options s1)
                   then entry1\<lparr>e_data := encrypt (e_data entry1), e_encrypted := True\<rparr>
                   else entry1)
      in (True,
          s1\<lparr>cache := AList.update cacheKey entry (cache s1),
             accessTimes := AList.update cacheKey now (accessTimes s1),
             hitCount := AList.update cacheKey 0 (hitCount s1),
             timers := (if ttl > 0
                        then AList.update cacheKey (Pending (int now + timer_delay P ttl) key)
                               (clear_timer cacheKey (timers s1))
                        else clear_timer cacheKey (timers s1)),
             statistics := (statistics s1)
               \<lparr>sets := sets (statistics s1) + 1,
                totalSize := totalSize (statistics s1) + int (e_size entry)\<rparr>\<rparr>))"

record get_options =
  defaultValue :: "jsval option"

text \<open>\<open>options.defaultValue || null\<close>.\<close>

definition miss_value :: "get_options \<Rightarrow> jsval" where
  "miss_value opts =
     (case defaultValue opts of
        Some d \<Rightarrow> if truthy d then d else JNull
      | None \<Rightarrow> JNull)"

definition count_miss :: "cache_manager \<Rightarrow> cache_manager" where
  "count_miss s = s\<lparr>statistics := (statistics s)\<lparr>misses := misses (statistics s) + 1\<rparr>\<rparr>"

definition get ::
  "jsplatform \<Rightarrow> jsval \<Rightarrow> get_options \<Rightarrow> nat \<Rightarrow> cache_manager \<Rightarrow> jsval \<times> cache_manager" where
  "get P key opts now s =
     (let cacheKey = normalizeKey P key in
      case map_of (cache s) cacheKey of
        None \<Rightarrow> (miss_value opts, count_miss s)
      | Some entry \<Rightarrow>
          if isExpired now entry then
            (miss_value opts, count_miss (snd (delete_op P key s)))
          else
            (cloneData P (e_data entry),
             s\<lparr>accessTimes := AList.update cacheKey now (accessTimes s),
               hitCount := AList.update cacheKey (lookup0 (hitCount s) cacheKey + 1) (hitCount s),
               statistics := (statistics s)\<lparr>hits := hits (statistics s) + 1\<rparr>\<rparr>))"

record clear_options =
  co_tags :: "string list option"
  co_pattern :: "(jsval \<Rightarrow> bool) option"

text \<open>
  The two filtering loops of \<open>clear\<close> run over the live \<open>Map\<close> while they delete from
  it. The iterator of a \<open>Map\<close> skips an entry that was deleted before it got there, so
  the loop runs over the entries the cache had at the start and passes over a key that
  is no longer in the cache. \<open>co_pattern\<close> is the test of the compiled regular
  expression, \<open>regex.test\<close>.
\<close>

fun clear_tags_loop ::
  "jsplatform \<Rightarrow> string list \<Rightarrow> (string \<times> cache_entry) list \<Rightarrow> cache_manager
     \<Rightarrow> cache_manager" where
  "clear_tags_loop P tags [] s = s"
| "clear_tags_loop P tags ((key, entry) # rest) s =
     (if map_of (cache s) key = None then clear_tags_loop P tags rest s
      else if list_ex (\<lambda>tag. tag \<in> set tags) (e_tags entry)
        then clear_tags_loop P tags rest (snd (delete_op P (denormalizeKey P key) s))
      else clear_tags_loop P tags rest s)"

fun clear_pattern_loop ::
  "jsplatform \<Rightarrow> (jsval \<Rightarrow> bool) \<Rightarrow> string list \<Rightarrow> cache_manager \<Rightarrow> cache_manager" where
  "clear_pattern_loop P test [] s = s"
| "clear_pattern_loop P test (key # rest) s =
     (if map_of (cache s) key = None then clear_pattern_loop P test rest s
      else if test (denormalizeKey P key)
        then clear_pattern_loop P test rest (snd (delete_op P (denormalizeKey P key) s))
      else clear_pattern_loop P test rest s)"

definition clear :: "jsplatform \<Rightarrow> clear_options \<Rightarrow> cache_manager \<Rightarrow> cache_manager" where
  "clear P opts s =
     (case co_tags opts of
        Some (t # ts) \<Rightarrow> clear_tags_loop P (t # ts) (cache s) s
      | _ \<Rightarrow>
          (case co_pattern opts of
             Some test \<Rightarrow> clear_pattern_loop P test (map fst (cache s)) s
           | None \<Rightarrow>
               s\<lparr>cache := [], timers := [], accessTimes := [], hitCount := [],
                 statistics := (statistics s)\<lparr>totalSize := 0\<rparr>\<rparr>))"

text \<open>The sweep that the constructor schedules once a minute.\<close>

fun delete_all :: "jsplatform \<Rightarrow> jsval list \<Rightarrow> cache_manager \<Rightarrow> cache_manager" where
  "delete_all P [] s = s"
| "delete_all P (key # keys) s = delete_all P keys (snd (delete_op P key s))"

definition cleanupExpired :: "jsplatform \<Rightarrow> nat \<Rightarrow> cache_manager \<Rightarrow> cache_manager" where
  "cleanupExpired P now s =
     (let expiredKeys =
            map (\<lambda>(key, entry). denormalizeKey P key)
              (filter (\<lambda>(key, entry). isExpired now entry) (cache s))
      in delete_all P expiredKeys s)"

text \<open>
  What the event loop runs between two calls of the application: the callback of a timer
  of \<open>set\<close>, named by the key of \<open>this.timers\<close> it is stored under, which runs only
  when its handle is pending and its time has come, and the sweep. The callback of the
  timer is \<open>() => this.delete(key)\<close>.
\<close>

datatype event = Timeout string | Sweep

fun run_event :: "jsplatform \<Rightarrow> nat \<Rightarrow> event \<Rightarrow> cache_manager \<Rightarrow> cache_manager" where
  "run_event P now (Timeout cacheKey) s =
     (case map_of (timers s) cacheKey of
        Some (Pending due key) \<Rightarrow>
          if due \<le> int now
          then snd (delete_op P key (s\<lparr>timers := AList.update cacheKey Cleared (timers s)\<rparr>))
          else s
      | _ \<Rightarrow> s)"
| "run_event P now Sweep s = cleanupExpired P now s"

text \<open>A run of the event loop: events with the times they happen at.\<close>

fun run_events :: "jsplatform \<Rightarrow> (nat \<times> event) list \<Rightarrow> cache_manager \<Rightarrow> cache_manager" where
  "run_events P [] s = s"
| "run_events P ((now, ev) # evs) s = run_events P evs (run_event P now ev s)"

section \<open>ErrorHandler\<close>

datatype errcode = CodeStr string | CodeNum int

text \<open>What \<open>classifyError\<close> reads of a thrown value: its \<open>message\<close> and its \<open>code\<close>,
  either of which may be missing.\<close>

record js_error =
  message :: "string option"
  code :: "errcode option"

record error_info =
  type :: string
  canRetry :: bool
  severity :: string

record retry_config =
  maxRetries :: nat
  baseDelay :: rat
  maxDelay :: rat
  backoffFactor :: rat

text \<open>The defaults of the constructor, \<open>this.retryConfig\<close>.\<close>

definition retryConfig :: retry_config where
  "retryConfig = \<lparr>maxRetries = 3, baseDelay = 1000, maxDelay = 10000, backoffFactor = 2\<rparr>"

text \<open>\<open>toLowerCase\<close> on the letters \<open>A\<close> to \<open>Z\<close>, and \<open>String.includes\<close>.\<close>

definition toLowerCase :: "string \<Rightarrow> string" where
  "toLowerCase s =
     map (\<lambda>c. if 65 \<le> (of_char c :: nat) \<and> (of_char c :: nat) \<le> 90
              then char_of (of_char c + 32 :: nat) else c) s"

fun includes_str :: "string \<Rightarrow> string \<Rightarrow> bool" where
  "includes_str [] needle = (needle = [])"
| "includes_str (c # cs) needle = (prefix needle (c # cs) \<or> includes_str cs needle)"

definition classifyError :: "js_error \<Rightarrow> error_info" where
  "classifyError error =
     (let msg = (case message error of Some m \<Rightarrow> toLowerCase m | None \<Rightarrow> []);
          code = code error
      in if includes_str msg ''network'' \<or> includes_str msg ''fetch''
            \<or> includes_str msg ''connection'' \<or> code = Some (CodeStr ''NETWORK_ERROR'')
         then \<lparr>type = ''network'', canRetry = True, severity = ''medium''\<rparr>
         else if includes_str msg ''revert'' \<or> includes_str msg ''gas''
            \<or> includes_str msg ''contract'' \<or> code = Some (CodeStr ''CALL_EXCEPTION'')
         then \<lparr>type = ''contract'', canRetry = False, severity = ''high''\<rparr>
         else if includes_str msg ''wallet'' \<or> includes_str msg ''metamask''
            \<or> includes_str msg ''user rejected'' \<or> code = Some (CodeNum 4001)
         then \<lparr>type = ''wallet'', canRetry = True, severity = ''medium''\<rparr>
         else if includes_str msg ''invalid'' \<or> includes_str msg ''validation''
            \<or> includes_str msg ''required''
         then \<lparr>type = ''validation'', canRetry = False, severity = ''low''\<rparr>
         else if includes_str msg ''permission'' \<or> includes_str msg ''unauthorized''
            \<or> includes_str msg ''forbidden'' \<or> code = Some (CodeNum 403)
         then \<lparr>type = ''permission'', canRetry = False, severity = ''high''\<rparr>
         else if includes_str msg ''timeout'' \<or> includes_str msg ''timed out''
            \<or> code = Some (CodeStr ''TIMEOUT'')
         then \<lparr>type = ''timeout'', canRetry = True, severity = ''medium''\<rparr>
         else \<lparr>type = ''unknown'', canRetry = True, severity = ''medium''\<rparr>)"

text \<open>
  A run of \<open>retry\<close>: what it returns (\<open>Inr\<close>) or throws (\<open>Inl\<close>; \<open>None\<close> is
  \<open>undefined\<close>, the value of \<open>lastError\<close> before any attempt), how many times it called
  \<open>fn\<close>, and the delays it slept, in order. \<open>fn\<close> is given by what its call with each
  attempt index does: return a value or throw an error. Delays are in exact arithmetic.
\<close>

record 'a retry_run =
  outcome :: "js_error option + 'a"
  invocations :: nat
  sleeps :: "rat list"

function retry_loop ::
  "retry_config \<Rightarrow> (nat \<Rightarrow> js_error + 'a) \<Rightarrow> nat \<Rightarrow> js_error option \<Rightarrow> 'a retry_run" where
  "retry_loop config fn attempt lastError =
     (if attempt \<le> maxRetries config then
        (case fn attempt of
           Inr result \<Rightarrow> \<lparr>outcome = Inr result, invocations = 1, sleeps = []\<rparr>
         | Inl error \<Rightarrow>
             if \<not> canRetry (classifyError error) \<or> attempt = maxRetries config
             then \<lparr>outcome = Inl (Some error), invocations = 1, sleeps = []\<rparr>
             else
               (let delay = min (baseDelay config * backoffFactor config ^ attempt)
                                (maxDelay config);
                    run = retry_loop config fn (attempt + 1) (Some error)
                in run\<lparr>invocations := invocations run + 1, sleeps := delay # sleeps run\<rparr>))
      else \<lparr>outcome = Inl lastError, invocations = 0, sleeps = []\<rparr>)"
  by pat_completeness auto
termination
  by (relation "measure (\<lambda>(config, fn, attempt, lastError). Suc (maxRetries config) - attempt)")
     auto

definition retry :: "retry_config \<Rightarrow> (nat \<Rightarrow> js_error + 'a) \<Rightarrow> 'a retry_run" where
  "retry config fn = retry_loop config fn 0 None"

section \<open>A platform to run the model on\<close>

text \<open>
  The theorems below hold for every platform. To run the model at concrete inputs this
  section gives one: a printer that writes a value as \<open>JSON.stringify\<close> does (no
  white space; the quote, the backslash and the control characters escaped), a parser of
  the JSON grammar, and the delay of \<open>setTimeout\<close> in a browser. The parser tells a
  syntax error, where \<open>JSON.parse\<close> throws, from a text that is JSON but has a value
  the model lacks.
\<close>

definition digit_char :: "nat \<Rightarrow> char" where
  "digit_char d = char_of (48 + d)"

fun show_nat :: "nat \<Rightarrow> string" where
  "show_nat n = (if n < 10 then [digit_char n] else show_nat (n div 10) @ [digit_char (n mod 10)])"

declare show_nat.simps [simp del]

definition show_int :: "int \<Rightarrow> string" where
  "show_int i = (if i < 0 then CHR ''-'' # show_nat (nat (- i)) else show_nat (nat i))"

definition hex_char :: "nat \<Rightarrow> char" where
  "hex_char d = (if d < 10 then char_of (48 + d) else char_of (87 + d))"

definition quote_char :: "char \<Rightarrow> string" where
  "quote_char c =
     (if c = CHR 0x22 then [CHR 0x5C, CHR 0x22]
      else if c = CHR 0x5C then [CHR 0x5C, CHR 0x5C]
      else if c = CHR 0x08 then [CHR 0x5C, CHR ''b'']
      else if c = CHR 0x0C then [CHR 0x5C, CHR ''f'']
      else if c = CHR 0x0A then [CHR 0x5C, CHR ''n'']
      else if c = CHR 0x0D then [CHR 0x5C, CHR ''r'']
      else if c = CHR 0x09 then [CHR 0x5C, CHR ''t'']
      else if (of_char c :: nat) < 32
        then [CHR 0x5C, CHR ''u'', CHR ''0'', CHR ''0'',
              hex_char (of_char c div 16), hex_char (of_char c mod 16)]
      else [c])"

definition quote :: "string \<Rightarrow> string" where
  "quote s = CHR 0x22 # concat (map quote_char s) @ [CHR 0x22]"

fun join :: "string list \<Rightarrow> string" where
  "join [] = []"
| "join [x] = x"
| "join (x # y # ys) = x @ CHR '','' # join (y # ys)"

fun js_stringify :: "jsval \<Rightarrow> string" where
  "js_stringify JNull = ''null''"
| "js_stringify (JBool b) = (if b then ''true'' else ''false'')"
| "js_stringify (JNum n) = show_int n"
| "js_stringify (JStr s) = quote s"
| "js_stringify (JArr xs) = CHR ''['' # join (map js_stringify xs) @ '']''"
| "js_stringify (JObj ps) =
     CHR ''{'' # join (map (\<lambda>(k, v). quote k @ CHR '':'' # js_stringify v) ps) @ ''}''"

definition is_ws :: "char \<Rightarrow> bool" where
  "is_ws c \<longleftrightarrow> c = CHR 0x20 \<or> c = CHR 0x09 \<or> c = CHR 0x0A \<or> c = CHR 0x0D"

fun skip_ws :: "string \<Rightarrow> string" where
  "skip_ws [] = []"
| "skip_ws (c # cs) = (if is_ws c then skip_ws cs else c # cs)"

definition is_digit :: "char \<Rightarrow> bool" where
  "is_digit c \<longleftrightarrow> 48 \<le> (of_char c :: nat) \<and> (of_char c :: nat) \<le> 57"

definition digit_val :: "char \<Rightarrow> int" where
  "digit_val c = of_char c - 48"

definition hex_val :: "char \<Rightarrow> nat option" where
  "hex_val c =
     (let n = (of_char c :: nat) in
      if 48 \<le> n \<and> n \<le> 57 then Some (n - 48)
      else if 65 \<le> n \<and> n \<le> 70 then Some (n - 55)
      else if 97 \<le> n \<and> n \<le> 102 then Some (n - 87)
      else None)"

fun digits_val :: "int \<Rightarrow> string \<Rightarrow> int" where
  "digits_val acc [] = acc"
| "digits_val acc (c # cs) = digits_val (10 * acc + digit_val c) cs"

text \<open>
  What the parser makes of a text, or of the front of one: a value and the text left
  after it; a syntax error; or a text whose value the model does not have (a number that
  is not an integer or lies beyond \<open>2^53\<close>, a character beyond 255).
\<close>

datatype 'a parsed = Parsed 'a string | Refused | Unmodelled

fun map_parsed :: "('a \<Rightarrow> 'b) \<Rightarrow> 'a parsed \<Rightarrow> 'b parsed" where
  "map_parsed f (Parsed x rest) = Parsed (f x) rest"
| "map_parsed f Refused = Refused"
| "map_parsed f Unmodelled = Unmodelled"

definition starts_with :: "char \<Rightarrow> string \<Rightarrow> bool" where
  "starts_with c s \<longleftrightarrow> (case s of [] \<Rightarrow> False | d # r \<Rightarrow> d = c)"

text \<open>
  A number is an integer part, a fraction and an exponent, the last two optional. Its
  value is the integer of the digits of the integer part and the fraction, times ten to
  the exponent less the length of the fraction. A value that is not an integer of
  magnitude at most \<open>2^53\<close> is not modelled.
\<close>

definition parse_number :: "string \<Rightarrow> jsval parsed" where
  "parse_number s =
     (let neg = starts_with (CHR ''-'') s;
          body = (if neg then tl s else s);
          ds = takeWhile is_digit body;
          after_int = dropWhile is_digit body;
          has_frac = starts_with (CHR ''.'') after_int;
          fs = (if has_frac then takeWhile is_digit (tl after_int) else []);
          after_frac = (if has_frac then dropWhile is_digit (tl after_int) else after_int);
          has_exp = (starts_with (CHR ''e'') after_frac \<or> starts_with (CHR ''E'') after_frac);
          after_e = (if has_exp then tl after_frac else after_frac);
          exp_neg = (has_exp \<and> starts_with (CHR ''-'') after_e);
          exp_body = (if has_exp \<and> (starts_with (CHR ''-'') after_e \<or> starts_with (CHR ''+'') after_e)
                      then tl after_e else after_e);
          es = (if has_exp then takeWhile is_digit exp_body else []);
          rest = (if has_exp then dropWhile is_digit exp_body else after_frac);
          mantissa = digits_val 0 (ds @ fs);
          exponent = (if exp_neg then - digits_val 0 es else digits_val 0 es) - int (length fs);
          sign = (if neg then - 1 else 1)
      in if ds = [] \<or> (length ds > 1 \<and> hd ds = CHR ''0'') then Refused
         else if has_frac \<and> fs = [] then Refused
         else if has_exp \<and> es = [] then Refused
         else if mantissa = 0 then Parsed (JNum 0) rest
         else if exponent \<ge> 0 then
           (if exponent > 16 then Unmodelled
            else if mantissa * 10 ^ nat exponent > 2 ^ 53 then Unmodelled
            else Parsed (JNum (sign * (mantissa * 10 ^ nat exponent))) rest)
         else if - exponent > int (length (ds @ fs)) then Unmodelled
         else if mantissa mod 10 ^ nat (- exponent) \<noteq> 0 then Unmodelled
         else if mantissa div 10 ^ nat (- exponent) > 2 ^ 53 then Unmodelled
         else Parsed (JNum (sign * (mantissa div 10 ^ nat (- exponent)))) rest)"

definition unescape :: "char \<Rightarrow> char option" where
  "unescape e =
     (if e = CHR 0x22 then Some (CHR 0x22)
      else if e = CHR 0x5C then Some (CHR 0x5C)
      else if e = CHR ''/'' then Some (CHR ''/'')
      else if e = CHR ''b'' then Some (CHR 0x08)
      else if e = CHR ''f'' then Some (CHR 0x0C)
      else if e = CHR ''n'' then Some (CHR 0x0A)
      else if e = CHR ''r'' then Some (CHR 0x0D)
      else if e = CHR ''t'' then Some (CHR 0x09)
      else None)"

text \<open>The code point of four hexadecimal digits.\<close>

definition hex4 :: "string \<Rightarrow> nat option" where
  "hex4 s =
     (case map hex_val (take 4 s) of
        [Some a, Some b, Some c, Some d] \<Rightarrow> Some (4096 * a + 256 * b + 16 * c + d)
      | _ \<Rightarrow> None)"

text \<open>The characters of a string literal after its opening quote.\<close>

fun parse_string :: "string \<Rightarrow> string parsed" where
  "parse_string [] = Refused"
| "parse_string (c # cs) =
     (if c = CHR 0x22 then Parsed [] cs
      else if c = CHR 0x5C then
        (if starts_with (CHR ''u'') cs then
           (case hex4 (tl cs) of
              None \<Rightarrow> Refused
            | Some point \<Rightarrow>
                if point < 256
                then map_parsed ((#) (char_of point)) (parse_string (drop 5 cs))
                else Unmodelled)
         else
           (case cs of
              [] \<Rightarrow> Refused
            | e # r \<Rightarrow>
                (case unescape e of
                   None \<Rightarrow> Refused
                 | Some x \<Rightarrow> map_parsed ((#) x) (parse_string r))))
      else if (of_char c :: nat) < 32 then Refused
      else map_parsed ((#) c) (parse_string cs))"

definition parse_literal :: "string \<Rightarrow> jsval \<Rightarrow> string \<Rightarrow> jsval parsed" where
  "parse_literal word v s =
     (if take (length word) s = word then Parsed v (drop (length word) s) else Refused)"

text \<open>A value that is neither an array nor an object.\<close>

definition parse_atom :: "string \<Rightarrow> jsval parsed" where
  "parse_atom s =
     (if starts_with (CHR ''n'') s then parse_literal ''null'' JNull s
      else if starts_with (CHR ''t'') s then parse_literal ''true'' (JBool True) s
      else if starts_with (CHR ''f'') s then parse_literal ''false'' (JBool False) s
      else if starts_with (CHR 0x22) s then map_parsed JStr (parse_string (tl s))
      else parse_number s)"

text \<open>A member in front of the members after it. A name that comes again takes the place
  of its first occurrence, with the later value.\<close>

definition cons_member :: "string \<Rightarrow> jsval \<Rightarrow> (string \<times> jsval) list \<Rightarrow> (string \<times> jsval) list" where
  "cons_member k v ps = (k, case map_of ps k of Some w \<Rightarrow> w | None \<Rightarrow> v) # AList.delete k ps"

text \<open>
  An object lists the properties named by an array index first, in ascending order, and
  the others after them in the order of their creation.
\<close>

definition is_index :: "string \<Rightarrow> bool" where
  "is_index k \<longleftrightarrow> k \<noteq> [] \<and> list_all is_digit k \<and> (length k = 1 \<or> hd k \<noteq> CHR ''0'')
     \<and> length k \<le> 10 \<and> digits_val 0 k \<le> 4294967294"

definition property_order :: "(string \<times> jsval) list \<Rightarrow> (string \<times> jsval) list" where
  "property_order ps =
     sort_key (\<lambda>(k, v). digits_val 0 k) (filter (\<lambda>(k, v). is_index k) ps)
       @ filter (\<lambda>(k, v). \<not> is_index k) ps"

text \<open>The name of a member and the colon after it; what is left starts at the value.\<close>

definition parse_name :: "string \<Rightarrow> string parsed" where
  "parse_name s =
     (if starts_with (CHR 0x22) s then
        (case parse_string (tl s) of
           Parsed k r \<Rightarrow>
             if starts_with (CHR '':'') (skip_ws r) then Parsed k (skip_ws (tl (skip_ws r)))
             else Refused
         | Refused \<Rightarrow> Refused
         | Unmodelled \<Rightarrow> Unmodelled)
      else Refused)"

text \<open>The parser proper, with fuel: every call consumes a character, so the length of the
  text is fuel enough.\<close>

fun parse_value :: "nat \<Rightarrow> string \<Rightarrow> jsval parsed"
  and parse_elements :: "nat \<Rightarrow> string \<Rightarrow> jsval list parsed"
  and parse_members :: "nat \<Rightarrow> string \<Rightarrow> (string \<times> jsval) list parsed"
where
  "parse_value 0 s = Refused"
| "parse_value (Suc n) s =
     (if starts_with (CHR ''['') s then
        (if starts_with (CHR '']'') (skip_ws (tl s)) then Parsed (JArr []) (tl (skip_ws (tl s)))
         else map_parsed JArr (parse_elements n (skip_ws (tl s))))
      else if starts_with (CHR ''{'') s then
        (if starts_with (CHR ''}'') (skip_ws (tl s)) then Parsed (JObj []) (tl (skip_ws (tl s)))
         else map_parsed (\<lambda>ps. JObj (property_order ps)) (parse_members n (skip_ws (tl s))))
      else parse_atom s)"
| "parse_elements 0 s = Refused"
| "parse_elements (Suc n) s =
     (case parse_value n s of
        Parsed v r \<Rightarrow>
          if starts_with (CHR '']'') (skip_ws r) then Parsed [v] (tl (skip_ws r))
          else if starts_with (CHR '','') (skip_ws r)
            then map_parsed ((#) v) (parse_elements n (skip_ws (tl (skip_ws r))))
          else Refused
      | Refused \<Rightarrow> Refused
      | Unmodelled \<Rightarrow> Unmodelled)"
| "parse_members 0 s = Refused"
| "parse_members (Suc n) s =
     (case parse_name s of
        Parsed k r \<Rightarrow>
          (case parse_value n r of
             Parsed v r' \<Rightarrow>
               if starts_with (CHR ''}'') (skip_ws r') then Parsed [(k, v)] (tl (skip_ws r'))
               else if starts_with (CHR '','') (skip_ws r')
                 then map_parsed (cons_member k v) (parse_members n (skip_ws (tl (skip_ws r'))))
               else Refused
           | Refused \<Rightarrow> Refused
           | Unmodelled \<Rightarrow> Unmodelled)
      | Refused \<Rightarrow> Refused
      | Unmodelled \<Rightarrow> Unmodelled)"

text \<open>A JSON text is one value between white space.\<close>

definition js_parse :: "string \<Rightarrow> jsval parsed" where
  "js_parse s =
     (case parse_value (Suc (length s)) (skip_ws s) of
        Parsed v r \<Rightarrow> if skip_ws r = [] then Parsed v [] else Refused
      | Refused \<Rightarrow> Refused
      | Unmodelled \<Rightarrow> Unmodelled)"

text \<open>
  \<open>setTimeout\<close> of a browser converts its delay to a signed integer of 32 bits, which
  wraps around, and takes a negative delay for zero. (Node.js takes a delay above
  2147483647 for 1; a month, the one such delay in the runs below, is ready by the next
  millisecond on both.)
\<close>

definition to_int32 :: "int \<Rightarrow> int" where
  "to_int32 x = (x + 2 ^ 31) mod 2 ^ 32 - 2 ^ 31"

definition js_timer_delay :: "int \<Rightarrow> int" where
  "js_timer_delay ms = max 0 (to_int32 ms)"

text \<open>
  The platform of the runs. It answers a text whose value the model lacks as it answers
  a syntax error; the runs below parse no such text (lemma \<open>parsed_texts\<close>).
\<close>

definition js :: jsplatform where
  "js =
     \<lparr>json_stringify = js_stringify,
      json_parse = (\<lambda>text. case js_parse text of
                             Parsed v rest \<Rightarrow> Some v
                           | Refused \<Rightarrow> None
                           | Unmodelled \<Rightarrow> None),
      timer_delay = js_timer_delay\<rparr>"

section \<open>Predicates of the statements\<close>

text \<open>
  A value is JSON-serializable when the round trip of \<open>cloneData\<close> through
  \<open>JSON.stringify\<close> and \<open>JSON.parse\<close> gives the value back. Only arrays and objects make
  the trip; \<open>cloneData\<close> returns every other value as it is.
\<close>

definition json_serializable :: "jsplatform \<Rightarrow> jsval \<Rightarrow> bool" where
  "json_serializable P v \<longleftrightarrow>
     (typeof_object v \<and> v \<noteq> JNull \<longrightarrow> json_parse P (json_stringify P v) = Some v)"

text \<open>
  \<open>evictLeastUsed\<close>, \<open>clear\<close> and \<open>cleanupExpired\<close> do not delete the key of the
  \<open>Map\<close> they found: they hand \<open>denormalizeKey(key)\<close> to \<open>delete\<close>, which normalizes
  it again. A key is stable when that round trip gives it back.
\<close>

definition stable_key :: "jsplatform \<Rightarrow> string \<Rightarrow> bool" where
  "stable_key P key \<longleftrightarrow> normalizeKey P (denormalizeKey P key) = key"

text \<open>An entry is tagged by a list of tags when it carries one of them.\<close>

definition tagged :: "string list \<Rightarrow> cache_entry \<Rightarrow> bool" where
  "tagged ts entry \<longleftrightarrow> set (e_tags entry) \<inter> set ts \<noteq> {}"

text \<open>A cache is tidy when its keys are distinct, as the keys of a \<open>Map\<close> are, stable
  and not empty.\<close>

definition tidy :: "jsplatform \<Rightarrow> cache_manager \<Rightarrow> bool" where
  "tidy P s \<longleftrightarrow> distinct (map fst (cache s))
     \<and> (\<forall>key \<in> fst ` set (cache s). stable_key P key \<and> key \<noteq> [])"

text \<open>
  The handles of \<open>this.timers\<close> are in order when the callback of each pending one
  deletes the key it is stored under, as \<open>set\<close> leaves them.
\<close>

definition timers_ok :: "jsplatform \<Rightarrow> cache_manager \<Rightarrow> bool" where
  "timers_ok P s \<longleftrightarrow>
     (\<forall>cacheKey due key. map_of (timers s) cacheKey = Some (Pending due key)
        \<longrightarrow> normalizeKey P key = cacheKey)"

text \<open>
  An entry is alive until \<open>limit\<close> when it is in the cache, expires after \<open>limit\<close> and
  its timer, if one is pending, is ready after \<open>limit\<close>, in a cache whose other keys are
  stable. A cache is sound when its handles are in order and its keys are distinct and stable.
\<close>

definition alive :: "jsplatform \<Rightarrow> string \<Rightarrow> cache_entry \<Rightarrow> nat \<Rightarrow> cache_manager \<Rightarrow> bool" where
  "alive P cacheKey entry limit s \<longleftrightarrow>
     timers_ok P s \<and> distinct (map fst (cache s))
     \<and> (\<forall>key \<in> fst ` set (cache s). key \<noteq> cacheKey \<longrightarrow> stable_key P key)
     \<and> map_of (cache s) cacheKey = Some entry
     \<and> int limit < e_expiresAt entry
     \<and> (\<forall>due key. map_of (timers s) cacheKey = Some (Pending due key) \<longrightarrow> int limit < due)"

definition sound :: "jsplatform \<Rightarrow> cache_manager \<Rightarrow> bool" where
  "sound P s \<longleftrightarrow>
     timers_ok P s \<and> distinct (map fst (cache s))
     \<and> (\<forall>key \<in> fst ` set (cache s). stable_key P key)"


text \<open>A sequence of \<open>set\<close> calls, each with its key, value, options and clock reading.\<close>

fun set_seq ::
  "jsplatform \<Rightarrow> (jsval \<times> jsval \<times> set_options \<times> nat) list \<Rightarrow> cache_manager \<Rightarrow> cache_manager" where
  "set_seq P [] s = s"
| "set_seq P ((key, val, opts, now) # calls) s = set_seq P calls (snd (set_op P key val opts now s))"

text \<open>
  The part of \<open>set\<close> after the capacity check, from the cache entry on, applied to the
  state \<open>s1\<close> the check leaves (lemma \<open>set_op_store\<close>), and the counter of
  \<open>evictLeastUsed\<close>. They let a run of the model be computed a step at a time.
\<close>

definition store_entry ::
  "jsplatform \<Rightarrow> jsval \<Rightarrow> string \<Rightarrow> jsval \<Rightarrow> int \<Rightarrow> string \<Rightarrow> string list \<Rightarrow> nat
     \<Rightarrow> cache_manager \<Rightarrow> cache_manager" where
  "store_entry P key cacheKey val ttl priority tags now s1 =
     (let entry0 = \<lparr>e_data = cloneData P val, e_timestamp = now, e_ttl = ttl,
                    e_expiresAt = int now + ttl, e_priority = priority, e_tags = tags,
                    e_size = calculateSize P val, e_compressed = False,
                    e_encrypted = False\<rparr>;
          entry1 = (if compressionEnabled (options s1) \<and> e_size entry0 > 1024
                    then entry0\<lparr>e_data := compress (e_data entry0), e_compressed := True\<rparr>
                    else entry0);
          entry = (if encryptionEnabled (options s1)
                   then entry1\<lparr>e_data := encrypt (e_data entry1), e_encrypted := True\<rparr>
                   else entry1)
      in s1\<lparr>cache := AList.update cacheKey entry (cache s1),
             accessTimes := AList.update cacheKey now (accessTimes s1),
             hitCount := AList.update cacheKey 0 (hitCount s1),
             timers := (if ttl > 0
                        then AList.update cacheKey (Pending (int now + timer_delay P ttl) key)
                               (clear_timer cacheKey (timers s1))
                        else clear_timer cacheKey (timers s1)),
             statistics := (statistics s1)
               \<lparr>sets := sets (statistics s1) + 1,
                totalSize := totalSize (statistics s1) + int (e_size entry)\<rparr>\<rparr>)"

definition count_eviction :: "cache_manager \<Rightarrow> cache_manager" where
  "count_eviction s = s\<lparr>statistics := (statistics s)\<lparr>evictions := evictions (statistics s) + 1\<rparr>\<rparr>"

section \<open>Concrete caches and errors\<close>

text \<open>The options of a manager built with \<open>new CacheManager({maxSize: n})\<close>: the default
  time to live is five minutes.\<close>

definition cap_options :: "int \<Rightarrow> cache_options" where
  "cap_options n =
     \<lparr>defaultTTL = 300000, maxSize = n, compressionEnabled = False, encryptionEnabled = False\<rparr>"

definition no_set_options :: set_options where
  "no_set_options = \<lparr>so_ttl = None, so_priority = None, so_tags = None\<rparr>"

definition no_get_options :: get_options where
  "no_get_options = \<lparr>defaultValue = None\<rparr>"

text \<open>The scenario \<open>cache.set("p1", {id: 1}, {ttl: 1000})\<close> at time 5000.\<close>

definition p1_options :: set_options where
  "p1_options = \<lparr>so_ttl = Some 1000, so_priority = None, so_tags = None\<rparr>"

definition p1_state :: cache_manager where
  "p1_state = snd (set_op js (JStr ''p1'') (JObj [(''id'', JNum 1)]) p1_options 5000
                 (new_cache (cap_options 100)))"

definition p1_entry :: cache_entry where
  "p1_entry =
     \<lparr>e_data = JObj [(''id'', JNum 1)], e_timestamp = 5000, e_ttl = 1000, e_expiresAt = 6000,
      e_priority = ''normal'', e_tags = [], e_size = 8, e_compressed = False,
      e_encrypted = False\<rparr>"

text \<open>
  States written out: a row is a key with the value, the time and the tags of the
  \<open>set\<close> that stored it, under the default time to live and priority, for values one
  character long.
\<close>

definition state_of ::
  "int \<Rightarrow> (string \<times> jsval \<times> nat \<times> string list) list \<Rightarrow> cache_statistics \<Rightarrow> cache_manager" where
  "state_of n rows stats =
     \<lparr>options = cap_options n,
      cache = map (\<lambda>(key, val, now, tags).
                (key, \<lparr>e_data = val, e_timestamp = now, e_ttl = 300000,
                       e_expiresAt = int now + 300000, e_priority = ''normal'', e_tags = tags,
                       e_size = 1, e_compressed = False, e_encrypted = False\<rparr>)) rows,
      timers = map (\<lambda>(key, val, now, tags). (key, Pending (int now + 300000) (JStr key))) rows,
      accessTimes = map (\<lambda>(key, val, now, tags). (key, now)) rows,
      hitCount = map (\<lambda>(key, val, now, tags). (key, 0)) rows,
      statistics = stats\<rparr>"

definition stats_of :: "nat \<Rightarrow> nat \<Rightarrow> nat \<Rightarrow> int \<Rightarrow> cache_statistics" where
  "stats_of n_sets n_deletes n_evictions bytes =
     \<lparr>hits = 0, misses = 0, sets = n_sets, deletes = n_deletes, evictions = n_evictions,
      totalSize = bytes\<rparr>"

text \<open>
  The scenario \<open>new CacheManager({defaultTTL: 2592000000})\<close>, thirty days, with
  \<open>set("p1", {id: 1})\<close> and with \<open>set(1, {id: 1})\<close> at time 5000; and the same time to
  live as the \<open>ttl\<close> of one call.
\<close>

definition month_cache_options :: cache_options where
  "month_cache_options =
     \<lparr>defaultTTL = 2592000000, maxSize = 100, compressionEnabled = False,
      encryptionEnabled = False\<rparr>"

definition month_options :: set_options where
  "month_options = \<lparr>so_ttl = Some 2592000000, so_priority = None, so_tags = None\<rparr>"

definition month_state :: cache_manager where
  "month_state = snd (set_op js (JStr ''p1'') (JObj [(''id'', JNum 1)]) no_set_options 5000
                    (new_cache month_cache_options))"

definition number_key_state :: cache_manager where
  "number_key_state = snd (set_op js (JNum 1) (JObj [(''id'', JNum 1)]) no_set_options 5000
                         (new_cache month_cache_options))"

definition month_entry :: cache_entry where
  "month_entry =
     \<lparr>e_data = JObj [(''id'', JNum 1)], e_timestamp = 5000, e_ttl = 2592000000,
      e_expiresAt = 2592005000, e_priority = ''normal'', e_tags = [], e_size = 8,
      e_compressed = False, e_encrypted = False\<rparr>"

text \<open>The state after one \<open>set\<close> of a month on a new manager, and after the callback of
  its timer.\<close>

definition month_set :: "string \<Rightarrow> jsval \<Rightarrow> cache_manager" where
  "month_set cacheKey key =
     \<lparr>options = month_cache_options, cache = [(cacheKey, month_entry)],
      timers = [(cacheKey, Pending 5000 key)], accessTimes = [(cacheKey, 5000)],
      hitCount = [(cacheKey, 0)], statistics = stats_of 1 0 0 8\<rparr>"

definition month_gone :: cache_manager where
  "month_gone =
     \<lparr>options = month_cache_options, cache = [], timers = [], accessTimes = [], hitCount = [],
      statistics = stats_of 1 1 0 0\<rparr>"

text \<open>The key \<open>"x"\<close>, three characters long: an \<open>x\<close> between double quotes.\<close>

definition quoted_x :: string where
  "quoted_x = [CHR 0x22, CHR ''x'', CHR 0x22]"

definition over_capacity_run :: cache_manager where
  "over_capacity_run =
     set_seq js [(JStr quoted_x, JNum 1, no_set_options, 1000),
                 (JStr ''a'', JNum 2, no_set_options, 2000)] (new_cache (cap_options 1))"

definition empty_key_run :: cache_manager where
  "empty_key_run =
     set_seq js [(JStr [], JNum 1, no_set_options, 1000),
                 (JStr ''a'', JNum 2, no_set_options, 2000)] (new_cache (cap_options 1))"

definition two_entries :: cache_manager where
  "two_entries =
     set_seq js [(JStr quoted_x, JNum 1, no_set_options, 1000),
                 (JStr ''y'', JNum 2, no_set_options, 2000)] (new_cache (cap_options 2))"

definition twin_entries :: cache_manager where
  "twin_entries =
     set_seq js [(JStr quoted_x, JNum 1, no_set_options, 1000),
                 (JStr ''x'', JNum 2, no_set_options, 2000)] (new_cache (cap_options 2))"

definition tagged_options :: set_options where
  "tagged_options = \<lparr>so_ttl = None, so_priority = None, so_tags = Some [''x'']\<rparr>"

definition tagged_state :: cache_manager where
  "tagged_state =
     set_seq js [(JStr ''a'', JNum 1, tagged_options, 1000),
                 (JStr ''b'', JNum 2, no_set_options, 2000)] (new_cache (cap_options 2))"

definition tagged_twins :: cache_manager where
  "tagged_twins =
     set_seq js [(JStr quoted_x, JNum 1, tagged_options, 1000),
                 (JStr ''x'', JNum 2, no_set_options, 2000)] (new_cache (cap_options 2))"


definition network_down :: js_error where
  "network_down = \<lparr>message = Some ''Network request failed'', code = None\<rparr>"

definition reverted :: js_error where
  "reverted = \<lparr>message = Some ''Execution Reverted'', code = None\<rparr>"


definition always_down :: "nat \<Rightarrow> js_error + nat" where
  "always_down attempt = Inl network_down"

definition always_reverted :: "nat \<Rightarrow> js_error + nat" where
  "always_reverted attempt = Inl reverted"

section \<open>Association lists\<close>

lemma delete_eq_filter: "AList.delete k al = filter (\<lambda>p. fst p \<noteq> k) al"
  by (induction al) auto

lemma delete_middle:
  assumes "distinct (map fst (pre @ (k, e) # rest))"
  shows "AList.delete k (pre @ (k, e) # rest) = pre @ rest"
proof -
  have "k \<notin> fst ` set pre" "k \<notin> fst ` set rest"
    using assms by auto
  then have "filter (\<lambda>p. fst p \<noteq> k) pre = pre" "filter (\<lambda>p. fst p \<noteq> k) rest = rest"
    by (auto simp: filter_id_conv)
  then show ?thesis
    by (simp add: delete_eq_filter)
qed

lemma map_of_middle:
  assumes "distinct (map fst (pre @ (k, e) # rest))"
  shows "map_of (pre @ (k, e) # rest) k = Some e"
proof -
  have "k \<notin> fst ` set pre"
    using assms by auto
  then have "map_of pre k = None"
    by (simp add: map_of_eq_None_iff)
  then show ?thesis
    by (simp add: map_add_def)
qed

lemma length_delete_present:
  assumes "distinct (map fst al)" "(k, e) \<in> set al"
  shows "Suc (length (AList.delete k al)) = length al"
  using assms
proof (induction al)
  case Nil
  then show ?case by simp
next
  case (Cons p al)
  show ?case
  proof (cases "fst p = k")
    case True
    then have "k \<notin> fst ` set al" using Cons.prems(1) by auto
    then have "AList.delete k al = al" by (simp add: delete_id)
    then show ?thesis using True by (simp add: delete_eq_filter)
  next
    case False
    then show ?thesis using Cons by (auto simp: delete_eq_filter)
  qed
qed

lemma length_update_new: "map_of al k = None \<Longrightarrow> length (AList.update k v al) = Suc (length al)"
  by (induction al) (auto split: if_splits)

lemma length_update_old: "map_of al k \<noteq> None \<Longrightarrow> length (AList.update k v al) = length al"
  by (induction al) (auto split: if_splits)

lemma update_new: "map_of al k = None \<Longrightarrow> AList.update k v al = al @ [(k, v)]"
  by (induction al) (auto split: if_splits)

lemma keys_update_old: "map_of al k \<noteq> None \<Longrightarrow> map fst (AList.update k v al) = map fst al"
  by (induction al) (auto split: if_splits)

lemma map_of_delete_other: "map_of al k = None \<Longrightarrow> map_of (AList.delete k0 al) k = None"
  by (simp add: delete_conv')

section \<open>Lookup, storing and deleting\<close>

lemma cloneData_serializable: "json_serializable P v \<Longrightarrow> cloneData P v = v"
  by (auto simp: json_serializable_def cloneData_def)

lemma set_op_lookup:
  "\<exists>e. map_of (cache (snd (set_op P k v opts now s))) (normalizeKey P k) = Some e
     \<and> e_data e = cloneData P v \<and> e_ttl e = ttl_of s opts
     \<and> e_expiresAt e = int now + ttl_of s opts \<and> e_timestamp e = now
     \<and> e_priority e = priority_of opts \<and> e_tags e = tags_of opts"
  by (simp add: set_op_def Let_def update_conv' compress_def encrypt_def)

lemma options_delete_op [simp]: "options (snd (delete_op P k s)) = options s"
  by (simp add: delete_op_def Let_def split: option.splits)

lemma options_evictLeastUsed [simp]: "options (evictLeastUsed P s) = options s"
  by (simp add: evictLeastUsed_def Let_def split: option.splits prod.splits)

lemma options_set_op [simp]: "options (snd (set_op P k v opts now s)) = options s"
  by (simp add: set_op_def Let_def)

lemma cache_count_miss [simp]: "cache (count_miss s) = cache s"
  by (simp add: count_miss_def)

lemma get_hit:
  assumes "map_of (cache s) (normalizeKey P k) = Some e" "\<not> isExpired now e"
  shows "fst (get P k gopts now s) = cloneData P (e_data e)"
  using assms by (simp add: get_def Let_def)

lemma delete_op_removes:
  "map_of (cache (snd (delete_op P k s))) (normalizeKey P k) = None"
  by (simp add: delete_op_def Let_def delete_conv' split: option.splits)

lemma miss_value_cases: "miss_value gopts = JNull \<or> defaultValue gopts = Some (miss_value gopts)"
  by (simp add: miss_value_def split: option.splits)

text \<open>The operations see a key only through its normalized form.\<close>

lemma delete_op_cong_key: "normalizeKey P k1 = normalizeKey P k2 \<Longrightarrow> delete_op P k1 = delete_op P k2"
  by (intro ext) (simp add: delete_op_def Let_def)

lemma get_cong_key:
  assumes "normalizeKey P k1 = normalizeKey P k2"
  shows "get P k1 = get P k2"
proof -
  have d: "delete_op P k1 = delete_op P k2"
    using assms by (rule delete_op_cong_key)
  show ?thesis
    by (intro ext) (simp add: get_def Let_def d assms split: option.splits)
qed

lemma set_then_get:
  assumes "normalizeKey P k1 = normalizeKey P k2"
    and "int now' < int now + ttl_of s opts"
  shows "fst (get P k2 gopts now' (snd (set_op P k1 v opts now s)))
           = cloneData P (cloneData P v)"
proof -
  obtain e where e: "map_of (cache (snd (set_op P k1 v opts now s))) (normalizeKey P k1) = Some e"
    "e_data e = cloneData P v" "e_expiresAt e = int now + ttl_of s opts"
    using set_op_lookup by blast
  have "\<not> isExpired now' e"
    using assms(2) e(3) by (simp add: isExpired_def)
  with e assms(1) show ?thesis
    by (simp add: get_hit)
qed

lemma delete_op_stable:
  assumes "stable_key P key" "map_of (cache s) key = Some e"
  shows "cache (snd (delete_op P (denormalizeKey P key) s)) = AList.delete key (cache s)"
  using assms by (simp add: delete_op_def stable_key_def Let_def)

section \<open>Eviction\<close>

lemma leastUsed_loop_None: "leastUsed_loop s xs best = None \<longleftrightarrow> best = None \<and> xs = []"
  by (induction s xs best rule: leastUsed_loop.induct) (auto split: option.splits)

lemma leastUsed_loop_least:
  assumes "leastUsed_loop s xs best = Some (k, least)"
  shows "(best = Some (k, least) \<or> (\<exists>e. (k, e) \<in> set xs \<and> least = score s k e))
       \<and> (\<forall>(k', e') \<in> set xs. least \<le> score s k' e')
       \<and> (\<forall>k0 b. best = Some (k0, b) \<longrightarrow> least \<le> b)"
  using assms
proof (induction s xs best rule: leastUsed_loop.induct)
  case (1 s best)
  then show ?case by simp
next
  case (2 s key entry rest best)
  show ?case
  proof (cases "case best of None \<Rightarrow> True | Some (k, b) \<Rightarrow> score s key entry < b")
    case True
    then have "leastUsed_loop s rest (Some (key, score s key entry)) = Some (k, least)"
      using "2.prems" by simp
    from "2.IH"(1) [OF True this] True show ?thesis
      by (auto split: option.splits)
  next
    case False
    then have "leastUsed_loop s rest best = Some (k, least)"
      using "2.prems" by simp
    from "2.IH"(2) [OF False this] False show ?thesis
      by (auto split: option.splits)
  qed
qed

text \<open>The loop of \<open>evictLeastUsed\<close> selects an entry of least score.\<close>

lemma evictLeastUsed_selects_least:
  assumes "cache s \<noteq> []"
  shows "\<exists>k e least. leastUsed_loop s (cache s) None = Some (k, least)
           \<and> (k, e) \<in> set (cache s) \<and> least = score s k e
           \<and> (\<forall>(k', e') \<in> set (cache s). score s k e \<le> score s k' e')"
proof -
  obtain k least where r: "leastUsed_loop s (cache s) None = Some (k, least)"
    using assms leastUsed_loop_None [of s "cache s" None] by (cases "leastUsed_loop s (cache s) None") auto
  from leastUsed_loop_least [OF r] r show ?thesis
    by auto
qed

text \<open>In a tidy cache the selected entry is the one that goes.\<close>

lemma evictLeastUsed_stable:
  assumes "cache s \<noteq> []"
    and "distinct (map fst (cache s))"
    and "\<forall>key \<in> fst ` set (cache s). stable_key P key \<and> key \<noteq> []"
  shows "\<exists>k e. (k, e) \<in> set (cache s)
           \<and> (\<forall>(k', e') \<in> set (cache s). score s k e \<le> score s k' e')
           \<and> cache (evictLeastUsed P s) = AList.delete k (cache s)"
proof -
  obtain k e least where r: "leastUsed_loop s (cache s) None = Some (k, least)"
    "(k, e) \<in> set (cache s)" "\<forall>(k', e') \<in> set (cache s). score s k e \<le> score s k' e'"
    using evictLeastUsed_selects_least [OF assms(1)] by blast
  have k: "stable_key P k" "k \<noteq> []"
    using assms(3) r(2) by force+
  have "map_of (cache s) k = Some e"
    using assms(2) r(2) by simp
  then have "cache (snd (delete_op P (denormalizeKey P k) s)) = AList.delete k (cache s)"
    using k(1) by (rule delete_op_stable [rotated])
  then have "cache (evictLeastUsed P s) = AList.delete k (cache s)"
    using r(1) k(2) by (simp add: evictLeastUsed_def Let_def)
  with r show ?thesis by blast
qed

lemma cache_set_op:
  "\<exists>entry. cache (snd (set_op P k v opts now s))
     = AList.update (normalizeKey P k) entry
         (cache (if int (length (cache s)) \<ge> maxSize (options s)
                      \<and> map_of (cache s) (normalizeKey P k) = None
                 then evictLeastUsed P s else s))"
  by (auto simp add: set_op_def Let_def)

lemma set_op_store:
  "set_op P key val opts now s =
     (True, store_entry P key (normalizeKey P key) val (ttl_of s opts) (priority_of opts) (tags_of opts) now
        (if int (length (cache s)) \<ge> maxSize (options s)
                   \<and> map_of (cache s) (normalizeKey P key) = None
                then evictLeastUsed P s else s))"
  by (simp add: set_op_def store_entry_def Let_def)

lemma set_op_evicting:
  assumes "maxSize (options s) \<le> int (length (cache s))"
    and "map_of (cache s) (normalizeKey P key) = None"
    and "evictLeastUsed P s = s1"
  shows "snd (set_op P key val opts now s)
           = store_entry P key (normalizeKey P key) val (ttl_of s opts) (priority_of opts)
               (tags_of opts) now s1"
  using assms by (simp add: set_op_store)

lemma evictLeastUsed_eval:
  assumes "leastUsed_loop s (cache s) None = Some (k, least)"
    and "k \<noteq> []"
    and "snd (delete_op P (denormalizeKey P k) s) = s1"
  shows "evictLeastUsed P s = count_eviction s1"
  using assms by (simp add: evictLeastUsed_def Let_def count_eviction_def)

text \<open>On tidy caches and stable keys \<open>set\<close> keeps the cache within \<open>maxSize\<close>.\<close>

lemma set_op_bounded:
  assumes "tidy P s"
    and "stable_key P (normalizeKey P k)" "normalizeKey P k \<noteq> []"
    and "1 \<le> maxSize (options s)"
    and "int (length (cache s)) \<le> maxSize (options s)"
  shows "tidy P (snd (set_op P k v opts now s))
       \<and> int (length (cache (snd (set_op P k v opts now s)))) \<le> maxSize (options s)"
proof -
  define ck where "ck = normalizeKey P k"
  define s1 where "s1 = (if int (length (cache s)) \<ge> maxSize (options s)
                              \<and> map_of (cache s) ck = None
                         then evictLeastUsed P s else s)"
  have d: "distinct (map fst (cache s))"
    and st: "\<forall>key \<in> fst ` set (cache s). stable_key P key \<and> key \<noteq> []"
    using assms(1) by (simp_all add: tidy_def)
  have "distinct (map fst (cache s1))
      \<and> fst ` set (cache s1) \<subseteq> fst ` set (cache s)
      \<and> (map_of (cache s1) ck = None \<longrightarrow> int (length (cache s1)) < maxSize (options s))
      \<and> int (length (cache s1)) \<le> maxSize (options s)"
  proof (cases "int (length (cache s)) \<ge> maxSize (options s) \<and> map_of (cache s) ck = None")
    case True
    then have ne: "cache s \<noteq> []" using assms(4) by auto
    obtain k0 e0 where k0: "(k0, e0) \<in> set (cache s)"
      "cache (evictLeastUsed P s) = AList.delete k0 (cache s)"
      using evictLeastUsed_stable [OF ne d st] by blast
    have "Suc (length (AList.delete k0 (cache s))) = length (cache s)"
      using d k0(1) by (rule length_delete_present)
    moreover have "fst ` set (AList.delete k0 (cache s)) \<subseteq> fst ` set (cache s)"
      by (auto simp: delete_eq_filter)
    moreover have "distinct (map fst (AList.delete k0 (cache s)))"
      using d by (rule distinct_delete)
    moreover have "s1 = evictLeastUsed P s"
      using True by (simp add: s1_def)
    ultimately show ?thesis using k0(2) assms(5) by auto
  next
    case False
    then have "s1 = s" by (auto simp: s1_def)
    then show ?thesis using d assms(5) False by auto
  qed
  then have s1: "distinct (map fst (cache s1))"
    "fst ` set (cache s1) \<subseteq> fst ` set (cache s)"
    "map_of (cache s1) ck = None \<longrightarrow> int (length (cache s1)) < maxSize (options s)"
    "int (length (cache s1)) \<le> maxSize (options s)"
    by blast+
  obtain entry where c: "cache (snd (set_op P k v opts now s)) = AList.update ck entry (cache s1)"
    using cache_set_op [of P k v opts now s] unfolding ck_def s1_def by blast
  have keys: "fst ` set (cache (snd (set_op P k v opts now s))) = insert ck (fst ` set (cache s1))"
    by (simp only: c dom_update) simp
  have len: "int (length (cache (snd (set_op P k v opts now s)))) \<le> maxSize (options s)"
  proof (cases "map_of (cache s1) ck = None")
    case True
    then show ?thesis using s1(3) by (simp add: c length_update_new)
  next
    case False
    then show ?thesis using s1(4) by (simp add: c length_update_old)
  qed
  have dist: "distinct (map fst (cache (snd (set_op P k v opts now s))))"
    using s1(1) by (simp only: c distinct_update)
  have "stable_key P key \<and> key \<noteq> []"
    if "key \<in> fst ` set (cache (snd (set_op P k v opts now s)))" for key
  proof (cases "key = ck")
    case True
    then show ?thesis using assms(2,3) by (simp add: ck_def)
  next
    case False
    then have "key \<in> fst ` set (cache s)"
      using that keys s1(2) by blast
    then show ?thesis using st by blast
  qed
  then show ?thesis
    using dist len unfolding tidy_def by blast
qed

lemma set_seq_bounded:
  assumes "tidy P s"
    and "\<forall>(key, val, opts, now) \<in> set calls.
           stable_key P (normalizeKey P key) \<and> normalizeKey P key \<noteq> []"
    and "1 \<le> maxSize (options s)"
    and "int (length (cache s)) \<le> maxSize (options s)"
  shows "int (length (cache (set_seq P calls s))) \<le> maxSize (options s)"
  using assms
proof (induction calls arbitrary: s)
  case Nil
  then show ?case by simp
next
  case (Cons c calls)
  obtain key val opts now where c: "c = (key, val, opts, now)"
    by (cases c)
  let ?s' = "snd (set_op P key val opts now s)"
  have step: "tidy P ?s' \<and> int (length (cache ?s')) \<le> maxSize (options s)"
    using Cons.prems c by (intro set_op_bounded) auto
  have "int (length (cache (set_seq P calls ?s'))) \<le> maxSize (options ?s')"
    using step Cons.prems by (intro Cons.IH) auto
  then show ?case using c by simp
qed

section \<open>Clearing by tags\<close>

lemma tagged_list_ex: "list_ex (\<lambda>tag. tag \<in> set ts) (e_tags entry) = tagged ts entry"
  by (auto simp: tagged_def list_ex_iff)

lemma clear_tags_loop_cache:
  assumes "distinct (map fst (pre @ todo))"
    and "cache s = pre @ todo"
    and "\<forall>key \<in> fst ` set todo. stable_key P key"
  shows "cache (clear_tags_loop P ts todo s) = pre @ filter (\<lambda>(key, entry). \<not> tagged ts entry) todo"
  using assms
proof (induction todo arbitrary: pre s)
  case Nil
  then show ?case by simp
next
  case (Cons x rest)
  obtain key entry where x: "x = (key, entry)"
    by (cases x)
  have d: "distinct (map fst (pre @ (key, entry) # rest))"
    using Cons.prems(1) x by simp
  have here: "map_of (cache s) key = Some entry"
    using Cons.prems(2) x map_of_middle [OF d] by simp
  have st: "stable_key P key"
    using Cons.prems(3) x by simp
  show ?case
  proof (cases "tagged ts entry")
    case True
    let ?s' = "snd (delete_op P (denormalizeKey P key) s)"
    have c: "cache ?s' = pre @ rest"
      using delete_op_stable [OF st here] Cons.prems(2) x delete_middle [OF d] by simp
    have "cache (clear_tags_loop P ts rest ?s')
            = pre @ filter (\<lambda>(key, entry). \<not> tagged ts entry) rest"
      using Cons.prems(3) d c by (intro Cons.IH) auto
    then show ?thesis
      using True here x by (simp add: tagged_list_ex)
  next
    case False
    have "cache (clear_tags_loop P ts rest s)
            = (pre @ [(key, entry)]) @ filter (\<lambda>(key, entry). \<not> tagged ts entry) rest"
      using Cons.prems d x by (intro Cons.IH) auto
    then show ?thesis
      using False here x by (simp add: tagged_list_ex)
  qed
qed

section \<open>The sweep\<close>

lemma delete_op_stable_cache:
  assumes "stable_key P key"
  shows "cache (snd (delete_op P (denormalizeKey P key) s)) = AList.delete key (cache s)"
proof (cases "map_of (cache s) key")
  case None
  then have "key \<notin> fst ` set (cache s)"
    by (simp add: map_of_eq_None_iff)
  then have "AList.delete key (cache s) = cache s"
    by (simp add: delete_id)
  then show ?thesis
    using assms None by (simp add: delete_op_def stable_key_def Let_def)
next
  case (Some e)
  with assms show ?thesis
    by (rule delete_op_stable)
qed

lemma delete_all_stable:
  assumes "\<forall>key \<in> set keys. stable_key P key"
  shows "cache (delete_all P (map (denormalizeKey P) keys) s)
           = filter (\<lambda>(key, entry). key \<notin> set keys) (cache s)"
  using assms
proof (induction keys arbitrary: s)
  case Nil
  then show ?case by simp
next
  case (Cons key keys)
  let ?s' = "snd (delete_op P (denormalizeKey P key) s)"
  have "cache ?s' = filter (\<lambda>p. fst p \<noteq> key) (cache s)"
    using Cons.prems by (simp add: delete_op_stable_cache delete_eq_filter)
  moreover have "cache (delete_all P (map (denormalizeKey P) keys) ?s')
           = filter (\<lambda>(key, entry). key \<notin> set keys) (cache ?s')"
    using Cons.prems by (intro Cons.IH) simp
  ultimately have "cache (delete_all P (map (denormalizeKey P) (key # keys)) s)
           = filter (\<lambda>p. fst p \<noteq> key \<and> fst p \<notin> set keys) (cache s)"
    by (simp add: case_prod_unfold)
  also have "\<dots> = filter (\<lambda>(k, entry). k \<notin> set (key # keys)) (cache s)"
    by (rule filter_cong) auto
  finally show ?case .
qed

text \<open>On a cache of distinct, stable keys the sweep removes exactly the expired entries.\<close>

lemma cleanupExpired_stable:
  assumes "distinct (map fst (cache s))"
    and "\<forall>key \<in> fst ` set (cache s). stable_key P key"
  shows "cache (cleanupExpired P now s)
           = filter (\<lambda>(key, entry). \<not> isExpired now entry) (cache s)"
proof -
  define expired where
    "expired = map fst (filter (\<lambda>(key, entry). isExpired now entry) (cache s))"
  have m: "map (\<lambda>(key, entry). denormalizeKey P key)
             (filter (\<lambda>(key, entry). isExpired now entry) (cache s))
           = map (denormalizeKey P) expired"
    by (simp add: expired_def case_prod_unfold comp_def)
  have "\<forall>key \<in> set expired. stable_key P key"
    using assms(2) by (auto simp: expired_def)
  then have c: "cache (delete_all P (map (denormalizeKey P) expired) s)
               = filter (\<lambda>(key, entry). key \<notin> set expired) (cache s)"
    by (rule delete_all_stable)
  have same: "(case p of (key, entry) \<Rightarrow> key \<notin> set expired)
                = (case p of (key, entry) \<Rightarrow> \<not> isExpired now entry)"
    if p: "p \<in> set (cache s)" for p
  proof -
    obtain key entry where kv: "p = (key, entry)"
      by (cases p)
    have here: "map_of (cache s) key = Some entry"
      using assms(1) p kv by simp
    have "key \<in> set expired \<longleftrightarrow> isExpired now entry"
    proof
      assume "key \<in> set expired"
      then obtain entry' where e': "(key, entry') \<in> set (cache s)" "isExpired now entry'"
        by (auto simp: expired_def)
      then have "map_of (cache s) key = Some entry'"
        using assms(1) by simp
      with here e'(2) show "isExpired now entry"
        by simp
    next
      assume "isExpired now entry"
      then have "(key, entry) \<in> set (filter (\<lambda>(key, entry). isExpired now entry) (cache s))"
        using p kv by simp
      then show "key \<in> set expired"
        unfolding expired_def by (metis fst_conv image_eqI set_map)
    qed
    then show ?thesis
      by (simp add: kv)
  qed
  have "filter (\<lambda>(key, entry). key \<notin> set expired) (cache s)
          = filter (\<lambda>(key, entry). \<not> isExpired now entry) (cache s)"
    by (rule filter_cong [OF refl]) (rule same)
  with c show ?thesis
    by (simp only: cleanupExpired_def Let_def m)
qed

section \<open>The event loop between two calls\<close>

lemma alive_delete_op:
  assumes "alive P K e till s" and "normalizeKey P k \<noteq> K"
  shows "alive P K e till (snd (delete_op P k s))"
proof (cases "map_of (cache s) (normalizeKey P k)")
  case None
  then show ?thesis using assms(1) by (simp add: delete_op_def Let_def)
next
  case (Some x)
  let ?k = "normalizeKey P k"
  have c: "cache (snd (delete_op P k s)) = AList.delete ?k (cache s)"
    and t: "timers (snd (delete_op P k s)) = AList.delete ?k (timers s)"
    using Some by (simp_all add: delete_op_def Let_def)
  have sub: "set (AList.delete ?k (cache s)) \<subseteq> set (cache s)"
    by (auto simp: delete_eq_filter)
  have "timers_ok P (snd (delete_op P k s))"
    using assms(1) unfolding alive_def timers_ok_def t
    by (auto simp: delete_conv' split: if_splits)
  moreover have "distinct (map fst (cache (snd (delete_op P k s))))"
    using assms(1) unfolding alive_def c by (simp add: distinct_delete)
  moreover have "\<forall>key \<in> fst ` set (cache (snd (delete_op P k s))).
                   key \<noteq> K \<longrightarrow> stable_key P key"
    using assms(1) sub unfolding alive_def c by fastforce
  moreover have "map_of (cache (snd (delete_op P k s))) K = Some e"
    using assms unfolding alive_def c by (simp add: delete_conv')
  moreover have "\<forall>due key. map_of (timers (snd (delete_op P k s))) K = Some (Pending due key)
                   \<longrightarrow> int till < due"
    using assms unfolding alive_def t by (simp add: delete_conv')
  ultimately show ?thesis
    using assms(1) unfolding alive_def by blast
qed

lemma alive_delete_all:
  assumes "alive P K e till s" and "\<forall>k \<in> set ks. normalizeKey P k \<noteq> K"
  shows "alive P K e till (delete_all P ks s)"
  using assms by (induction ks arbitrary: s) (simp_all add: alive_delete_op)

lemma alive_not_expired:
  assumes "alive P K e till s" and "now \<le> till"
  shows "\<not> isExpired now e"
  using assms by (simp add: alive_def isExpired_def)

lemma alive_sweep:
  assumes "alive P K e till s" and "now \<le> till"
  shows "alive P K e till (cleanupExpired P now s)"
proof -
  have "normalizeKey P (denormalizeKey P key) \<noteq> K"
    if "(key, entry) \<in> set (cache s)" "isExpired now entry" for key entry
  proof -
    have "map_of (cache s) key = Some entry"
      using assms(1) that(1) by (simp add: alive_def)
    then have "key \<noteq> K"
      using assms alive_not_expired [OF assms] that(2) by (auto simp: alive_def)
    then have "stable_key P key"
      using assms(1) that(1) by (force simp: alive_def)
    then show ?thesis
      using \<open>key \<noteq> K\<close> by (simp add: stable_key_def)
  qed
  then have "\<forall>k \<in> set (map (\<lambda>(key, entry). denormalizeKey P key)
                 (filter (\<lambda>(key, entry). isExpired now entry) (cache s))).
               normalizeKey P k \<noteq> K"
    by auto
  then show ?thesis
    unfolding cleanupExpired_def Let_def by (rule alive_delete_all [OF assms(1)])
qed

lemma alive_timeout:
  assumes "alive P K e till s" and "now \<le> till"
  shows "alive P K e till (run_event P now (Timeout K') s)"
proof (cases "map_of (timers s) K'")
  case None
  then show ?thesis using assms(1) by simp
next
  case (Some t)
  show ?thesis
  proof (cases t)
    case Cleared
    then show ?thesis using Some assms(1) by simp
  next
    case (Pending due key)
    show ?thesis
    proof (cases "due \<le> int now")
      case False
      then show ?thesis using Some Pending assms(1) by simp
    next
      case True
      have ne: "K' \<noteq> K"
        using assms True Some Pending by (auto simp: alive_def)
      have nk: "normalizeKey P key = K'"
        using assms(1) Some Pending by (auto simp: alive_def timers_ok_def)
      let ?s' = "s\<lparr>timers := AList.update K' Cleared (timers s)\<rparr>"
      have "alive P K e till ?s'"
        using assms(1) ne unfolding alive_def timers_ok_def
        by (auto simp: update_conv')
      then have "alive P K e till (snd (delete_op P key ?s'))"
        using ne nk by (intro alive_delete_op) simp_all
      then show ?thesis
        using Some Pending True by simp
    qed
  qed
qed

lemma alive_run_event:
  assumes "alive P K e till s" and "now \<le> till"
  shows "alive P K e till (run_event P now ev s)"
  using assms by (cases ev) (simp_all add: alive_timeout alive_sweep del: run_event.simps(1))

lemma alive_run_events:
  assumes "alive P K e till s" and "\<forall>(now, ev) \<in> set evs. now \<le> till"
  shows "alive P K e till (run_events P evs s)"
  using assms
proof (induction evs arbitrary: s)
  case Nil
  then show ?case by simp
next
  case (Cons x evs)
  obtain now ev where x: "x = (now, ev)" by (cases x)
  have "alive P K e till (run_event P now ev s)"
    using Cons.prems x by (intro alive_run_event) auto
  then have "alive P K e till (run_events P evs (run_event P now ev s))"
    using Cons.prems by (intro Cons.IH) auto
  then show ?case using x by simp
qed

lemma alive_get:
  assumes "alive P (normalizeKey P k) e till s"
  shows "fst (get P k gopts till s) = cloneData P (e_data e)"
  using assms alive_not_expired [OF assms order_refl]
  by (simp add: get_def alive_def Let_def)

lemma sound_new_cache: "sound P (new_cache opts)"
  by (simp add: sound_def timers_ok_def new_cache_def)

lemma sound_delete_op:
  assumes "sound P s"
  shows "sound P (snd (delete_op P k s))"
proof (cases "map_of (cache s) (normalizeKey P k)")
  case None
  then show ?thesis using assms by (simp add: delete_op_def Let_def)
next
  case (Some x)
  let ?k = "normalizeKey P k"
  have c: "cache (snd (delete_op P k s)) = AList.delete ?k (cache s)"
    and t: "timers (snd (delete_op P k s)) = AList.delete ?k (timers s)"
    using Some by (simp_all add: delete_op_def Let_def)
  have sub: "set (AList.delete ?k (cache s)) \<subseteq> set (cache s)"
    by (auto simp: delete_eq_filter)
  have "timers_ok P (snd (delete_op P k s))"
    using assms unfolding sound_def timers_ok_def t
    by (auto simp: delete_conv' split: if_splits)
  moreover have "distinct (map fst (cache (snd (delete_op P k s))))"
    using assms unfolding sound_def c by (simp add: distinct_delete)
  moreover have "\<forall>key \<in> fst ` set (cache (snd (delete_op P k s))). stable_key P key"
    using assms sub unfolding sound_def c by fastforce
  ultimately show ?thesis
    unfolding sound_def by blast
qed

lemma sound_evictLeastUsed:
  assumes "sound P s"
  shows "sound P (evictLeastUsed P s)"
proof -
  have "sound P (s1\<lparr>statistics := st\<rparr>)" if "sound P s1" for s1 st
    using that by (simp add: sound_def timers_ok_def)
  then show ?thesis
    using assms sound_delete_op [OF assms]
    by (auto simp: evictLeastUsed_def Let_def split: option.splits)
qed

lemma map_of_clear_timer:
  "map_of (clear_timer K ts) K' =
     (if K' = K \<and> map_of ts K \<noteq> None then Some Cleared else map_of ts K')"
  by (auto simp: clear_timer_def update_conv' split: option.splits)

lemma alive_set_op:
  assumes "sound P s"
    and "int till < int now + ttl_of s opts"
    and "0 < ttl_of s opts \<longrightarrow> int till < int now + timer_delay P (ttl_of s opts)"
  shows "\<exists>e. e_data e = cloneData P v
           \<and> alive P (normalizeKey P k) e till (snd (set_op P k v opts now s))"
proof -
  define K where "K = normalizeKey P k"
  define s1 where "s1 = (if int (length (cache s)) \<ge> maxSize (options s)
                              \<and> map_of (cache s) K = None
                         then evictLeastUsed P s else s)"
  define s' where "s' = snd (set_op P k v opts now s)"
  have s1: "sound P s1"
    using assms(1) sound_evictLeastUsed [OF assms(1)] by (simp add: s1_def)
  obtain e where e: "map_of (cache s') K = Some e" "e_data e = cloneData P v"
    "e_expiresAt e = int now + ttl_of s opts"
    using set_op_lookup [of P k v opts now s] unfolding s'_def K_def by blast
  obtain entry where c: "cache s' = AList.update K entry (cache s1)"
    using cache_set_op [of P k v opts now s] unfolding s'_def K_def s1_def by blast
  have t: "timers s' = (if ttl_of s opts > 0
                        then AList.update K (Pending (int now + timer_delay P (ttl_of s opts)) k)
                               (clear_timer K (timers s1))
                        else clear_timer K (timers s1))"
    unfolding s'_def K_def s1_def by (simp add: set_op_def Let_def)
  have "timers_ok P s'"
    using s1 unfolding sound_def timers_ok_def t
    by (auto simp: update_conv' map_of_clear_timer K_def split: if_splits)
  moreover have "distinct (map fst (cache s'))"
    using s1 unfolding sound_def c by (simp add: distinct_update)
  moreover have "\<forall>key \<in> fst ` set (cache s'). key \<noteq> K \<longrightarrow> stable_key P key"
  proof -
    have "fst ` set (cache s') = insert K (fst ` set (cache s1))"
      unfolding c by (simp add: dom_update)
    then show ?thesis
      using s1 unfolding sound_def by blast
  qed
  moreover have "int till < e_expiresAt e"
    using assms(2) e(3) by simp
  moreover have "\<forall>due key. map_of (timers s') K = Some (Pending due key) \<longrightarrow> int till < due"
    using assms(3) unfolding t
    by (auto simp: update_conv' map_of_clear_timer split: if_splits)
  ultimately have "alive P K e till s'"
    using e(1) unfolding alive_def by blast
  then show ?thesis
    using e(2) unfolding K_def s'_def by blast
qed

text \<open>
  After \<open>set(k1, v)\<close> on a cache of stable keys, whatever the event loop runs before the
  time to live is over and before the timer of the entry is ready, \<open>get(k2)\<close> returns
  the copy of the copy of \<open>v\<close>, for every key \<open>k2\<close> of the normalized form of \<open>k1\<close>.
\<close>

lemma set_then_get_later:
  assumes "sound P s"
    and "normalizeKey P k1 = normalizeKey P k2"
    and "int now' < int now + ttl_of s opts"
    and "0 < ttl_of s opts \<longrightarrow> int now' < int now + timer_delay P (ttl_of s opts)"
    and "\<forall>(t, ev) \<in> set evs. t \<le> now'"
  shows "fst (get P k2 gopts now' (run_events P evs (snd (set_op P k1 v opts now s))))
           = cloneData P (cloneData P v)"
proof -
  obtain e where e: "e_data e = cloneData P v"
    "alive P (normalizeKey P k1) e now' (snd (set_op P k1 v opts now s))"
    using alive_set_op [OF assms(1,3,4)] by blast
  have "alive P (normalizeKey P k2) e now' (run_events P evs (snd (set_op P k1 v opts now s)))"
    using e(2) assms(2,5) by (simp add: alive_run_events)
  then show ?thesis
    using e(1) by (simp add: alive_get)
qed

lemma to_int32_small: "- (2 ^ 31) \<le> x \<Longrightarrow> x < 2 ^ 31 \<Longrightarrow> to_int32 x = x"
  by (simp add: to_int32_def)

lemma js_timer_delay_small: "0 \<le> ms \<Longrightarrow> ms \<le> 2147483647 \<Longrightarrow> timer_delay js ms = ms"
  by (simp add: js_def js_timer_delay_def to_int32_small)

text \<open>The operations see a key through its normalized form; \<open>set\<close> also hands the key
  itself to the callback of the timer.\<close>

lemma set_op_cong_key:
  assumes "normalizeKey P k1 = normalizeKey P k2"
  shows "cache (snd (set_op P k1 v opts now s)) = cache (snd (set_op P k2 v opts now s))
       \<and> accessTimes (snd (set_op P k1 v opts now s)) = accessTimes (snd (set_op P k2 v opts now s))
       \<and> hitCount (snd (set_op P k1 v opts now s)) = hitCount (snd (set_op P k2 v opts now s))
       \<and> statistics (snd (set_op P k1 v opts now s)) = statistics (snd (set_op P k2 v opts now s))"
  using assms by (simp add: set_op_def Let_def)

section \<open>Retrying\<close>



lemma classifyError_type:
  "type (classifyError e) \<in> {''network'', ''contract'', ''wallet'', ''validation'',
      ''permission'', ''timeout'', ''unknown''}"
  by (simp add: classifyError_def Let_def)

section \<open>Runs of the model\<close>

lemma new_cache_state_of: "new_cache (cap_options n) = state_of n [] (stats_of 0 0 0 0)"
  by (simp add: new_cache_def state_of_def stats_of_def new_statistics_def)

lemma first_quoted_x:
  "snd (set_op js (JStr quoted_x) (JNum 1) no_set_options 1000 (state_of 1 [] (stats_of 0 0 0 0)))
     = state_of 1 [(quoted_x, JNum 1, 1000, [])] (stats_of 1 0 0 1)"
  "snd (set_op js (JStr quoted_x) (JNum 1) no_set_options 1000 (state_of 2 [] (stats_of 0 0 0 0)))
     = state_of 2 [(quoted_x, JNum 1, 1000, [])] (stats_of 1 0 0 1)"
  by code_simp+

lemma over_capacity_second:
  "snd (set_op js (JStr ''a'') (JNum 2) no_set_options 2000
         (state_of 1 [(quoted_x, JNum 1, 1000, [])] (stats_of 1 0 0 1)))
     = state_of 1 [(quoted_x, JNum 1, 1000, []), (''a'', JNum 2, 2000, [])] (stats_of 2 0 1 2)"
  by code_simp

lemma over_capacity_run_eq:
  "over_capacity_run
     = state_of 1 [(quoted_x, JNum 1, 1000, []), (''a'', JNum 2, 2000, [])] (stats_of 2 0 1 2)"
  by (simp only: over_capacity_run_def set_seq.simps new_cache_state_of first_quoted_x
        over_capacity_second)

lemma empty_key_first:
  "snd (set_op js (JStr []) (JNum 1) no_set_options 1000 (state_of 1 [] (stats_of 0 0 0 0)))
     = state_of 1 [([], JNum 1, 1000, [])] (stats_of 1 0 0 1)"
  by code_simp

lemma empty_key_second:
  "snd (set_op js (JStr ''a'') (JNum 2) no_set_options 2000
         (state_of 1 [([], JNum 1, 1000, [])] (stats_of 1 0 0 1)))
     = state_of 1 [([], JNum 1, 1000, []), (''a'', JNum 2, 2000, [])] (stats_of 2 0 0 2)"
  by code_simp

lemma empty_key_run_eq:
  "empty_key_run
     = state_of 1 [([], JNum 1, 1000, []), (''a'', JNum 2, 2000, [])] (stats_of 2 0 0 2)"
  by (simp only: empty_key_run_def set_seq.simps new_cache_state_of empty_key_first
        empty_key_second)

lemma two_entries_second:
  "snd (set_op js (JStr ''y'') (JNum 2) no_set_options 2000
         (state_of 2 [(quoted_x, JNum 1, 1000, [])] (stats_of 1 0 0 1)))
     = state_of 2 [(quoted_x, JNum 1, 1000, []), (''y'', JNum 2, 2000, [])] (stats_of 2 0 0 2)"
  by code_simp

lemma two_entries_eq:
  "two_entries
     = state_of 2 [(quoted_x, JNum 1, 1000, []), (''y'', JNum 2, 2000, [])] (stats_of 2 0 0 2)"
  by (simp only: two_entries_def set_seq.simps new_cache_state_of first_quoted_x
        two_entries_second)

lemma two_entries_third:
  "snd (set_op js (JStr ''b'') (JNum 3) no_set_options 3000
         (state_of 2 [(quoted_x, JNum 1, 1000, []), (''y'', JNum 2, 2000, [])] (stats_of 2 0 0 2)))
     = state_of 2 [(quoted_x, JNum 1, 1000, []), (''y'', JNum 2, 2000, []),
                   (''b'', JNum 3, 3000, [])] (stats_of 3 0 1 3)"
  (is "snd (set_op js ?k ?v ?o ?t ?s) = ?s'")
proof -
  have a: "maxSize (options ?s) \<le> int (length (cache ?s))"
    and b: "map_of (cache ?s) (normalizeKey js ?k) = None"
    by code_simp+
  have sel: "leastUsed_loop ?s (cache ?s) None = Some (quoted_x, 2)"
    by (simp add: state_of_def score_def lookup0_def priorityWeight_def quoted_x_def)
  have ne: "quoted_x \<noteq> []"
    by (simp add: quoted_x_def)
  have del: "snd (delete_op js (denormalizeKey js quoted_x) ?s) = ?s"
    by code_simp
  have d: "store_entry js ?k (normalizeKey js ?k) ?v (ttl_of ?s ?o) (priority_of ?o) (tags_of ?o) ?t
             (count_eviction ?s) = ?s'"
    by code_simp
  show ?thesis
    by (simp only: set_op_evicting [OF a b evictLeastUsed_eval [OF sel ne del]] d)
qed

lemma twin_entries_second:
  "snd (set_op js (JStr ''x'') (JNum 2) no_set_options 2000
         (state_of 2 [(quoted_x, JNum 1, 1000, [])] (stats_of 1 0 0 1)))
     = state_of 2 [(quoted_x, JNum 1, 1000, []), (''x'', JNum 2, 2000, [])] (stats_of 2 0 0 2)"
  by code_simp

lemma twin_entries_eq:
  "twin_entries
     = state_of 2 [(quoted_x, JNum 1, 1000, []), (''x'', JNum 2, 2000, [])] (stats_of 2 0 0 2)"
  by (simp only: twin_entries_def set_seq.simps new_cache_state_of first_quoted_x
        twin_entries_second)

lemma twin_entries_third:
  "snd (set_op js (JStr ''b'') (JNum 3) no_set_options 3000
         (state_of 2 [(quoted_x, JNum 1, 1000, []), (''x'', JNum 2, 2000, [])] (stats_of 2 0 0 2)))
     = state_of 2 [(quoted_x, JNum 1, 1000, []), (''b'', JNum 3, 3000, [])] (stats_of 3 1 1 2)"
  (is "snd (set_op js ?k ?v ?o ?t ?s) = ?s'")
proof -
  have a: "maxSize (options ?s) \<le> int (length (cache ?s))"
    and b: "map_of (cache ?s) (normalizeKey js ?k) = None"
    by code_simp+
  have sel: "leastUsed_loop ?s (cache ?s) None = Some (quoted_x, 2)"
    by (simp add: state_of_def score_def lookup0_def priorityWeight_def quoted_x_def)
  have ne: "quoted_x \<noteq> []"
    by (simp add: quoted_x_def)
  have del: "snd (delete_op js (denormalizeKey js quoted_x) ?s)
               = state_of 2 [(quoted_x, JNum 1, 1000, [])] (stats_of 2 1 0 1)"
    by code_simp
  have d: "store_entry js ?k (normalizeKey js ?k) ?v (ttl_of ?s ?o) (priority_of ?o) (tags_of ?o) ?t
             (count_eviction (state_of 2 [(quoted_x, JNum 1, 1000, [])] (stats_of 2 1 0 1))) = ?s'"
    by code_simp
  show ?thesis
    by (simp only: set_op_evicting [OF a b evictLeastUsed_eval [OF sel ne del]] d)
qed

lemma twin_entries_scores:
  "map (\<lambda>(key, entry). (key, score s key entry)) (cache s) = [(quoted_x, 2), (''x'', 4)]"
  if "s = state_of 2 [(quoted_x, JNum 1, 1000, []), (''x'', JNum 2, 2000, [])] (stats_of 2 0 0 2)"
  unfolding that
  by (simp add: state_of_def score_def lookup0_def priorityWeight_def quoted_x_def)

lemma tagged_first:
  "snd (set_op js (JStr ''a'') (JNum 1) tagged_options 1000 (state_of 2 [] (stats_of 0 0 0 0)))
     = state_of 2 [(''a'', JNum 1, 1000, [''x''])] (stats_of 1 0 0 1)"
  by code_simp

lemma tagged_second:
  "snd (set_op js (JStr ''b'') (JNum 2) no_set_options 2000
         (state_of 2 [(''a'', JNum 1, 1000, [''x''])] (stats_of 1 0 0 1)))
     = state_of 2 [(''a'', JNum 1, 1000, [''x'']), (''b'', JNum 2, 2000, [])] (stats_of 2 0 0 2)"
  by code_simp

lemma tagged_state_eq:
  "tagged_state
     = state_of 2 [(''a'', JNum 1, 1000, [''x'']), (''b'', JNum 2, 2000, [])] (stats_of 2 0 0 2)"
  by (simp only: tagged_state_def set_seq.simps new_cache_state_of tagged_first tagged_second)

lemma tagged_third:
  "snd (set_op js (JStr ''c'') (JNum 3) no_set_options 3000
         (state_of 2 [(''a'', JNum 1, 1000, [''x'']), (''b'', JNum 2, 2000, [])] (stats_of 2 0 0 2)))
     = state_of 2 [(''b'', JNum 2, 2000, []), (''c'', JNum 3, 3000, [])] (stats_of 3 1 1 2)"
  (is "snd (set_op js ?k ?v ?o ?t ?s) = ?s'")
proof -
  have a: "maxSize (options ?s) \<le> int (length (cache ?s))"
    and b: "map_of (cache ?s) (normalizeKey js ?k) = None"
    by code_simp+
  have sel: "leastUsed_loop ?s (cache ?s) None = Some (''a'', 2)"
    by (simp add: state_of_def score_def lookup0_def priorityWeight_def)
  have ne: "''a'' \<noteq> []"
    by simp
  have del: "snd (delete_op js (denormalizeKey js ''a'') ?s)
               = state_of 2 [(''b'', JNum 2, 2000, [])] (stats_of 2 1 0 1)"
    by code_simp
  have d: "store_entry js ?k (normalizeKey js ?k) ?v (ttl_of ?s ?o) (priority_of ?o) (tags_of ?o) ?t
             (count_eviction (state_of 2 [(''b'', JNum 2, 2000, [])] (stats_of 2 1 0 1))) = ?s'"
    by code_simp
  show ?thesis
    by (simp only: set_op_evicting [OF a b evictLeastUsed_eval [OF sel ne del]] d)
qed

lemma zero_capacity_first:
  "snd (set_op js (JStr ''a'') (JNum 1) no_set_options 1000 (state_of 0 [] (stats_of 0 0 0 0)))
     = state_of 0 [(''a'', JNum 1, 1000, [])] (stats_of 1 0 0 1)"
  by code_simp

lemma stable_a_b: "stable_key js ''a''" "stable_key js ''b''"
  by code_simp+

lemma tagged_twins_first:
  "snd (set_op js (JStr quoted_x) (JNum 1) tagged_options 1000 (state_of 2 [] (stats_of 0 0 0 0)))
     = state_of 2 [(quoted_x, JNum 1, 1000, [''x''])] (stats_of 1 0 0 1)"
  by code_simp

lemma tagged_twins_second:
  "snd (set_op js (JStr ''x'') (JNum 2) no_set_options 2000
         (state_of 2 [(quoted_x, JNum 1, 1000, [''x''])] (stats_of 1 0 0 1)))
     = state_of 2 [(quoted_x, JNum 1, 1000, [''x'']), (''x'', JNum 2, 2000, [])] (stats_of 2 0 0 2)"
  by code_simp

lemma tagged_twins_eq:
  "tagged_twins
     = state_of 2 [(quoted_x, JNum 1, 1000, [''x'']), (''x'', JNum 2, 2000, [])] (stats_of 2 0 0 2)"
  by (simp only: tagged_twins_def set_seq.simps new_cache_state_of tagged_twins_first
        tagged_twins_second)

lemma tagged_twins_cleared:
  "cache (clear js \<lparr>co_tags = Some [''x''], co_pattern = None\<rparr>
            (state_of 2 [(quoted_x, JNum 1, 1000, [''x'']), (''x'', JNum 2, 2000, [])]
               (stats_of 2 0 0 2)))
     = cache (state_of 2 [(quoted_x, JNum 1, 1000, [''x''])] (stats_of 2 1 0 1))"
  by code_simp

text \<open>
  On a key that is not stable \<open>clear\<close> by tags deletes the wrong entry: of \<open>"x"\<close>, tagged
  \<open>x\<close>, and \<open>x\<close>, untagged, it removes the second and keeps the first.
\<close>

lemma clear_tags_unstable_key:
  "map (\<lambda>(key, entry). (key, e_tags entry)) (cache tagged_twins)
     = [(quoted_x, [''x'']), (''x'', [])]
   \<and> map (\<lambda>(key, entry). (key, e_tags entry))
         (cache (clear js \<lparr>co_tags = Some [''x''], co_pattern = None\<rparr> tagged_twins))
     = [(quoted_x, [''x''])]"
  by (simp add: tagged_twins_eq tagged_twins_cleared) (simp add: state_of_def)

lemma classify_network_down:
  "classifyError network_down = \<lparr>type = ''network'', canRetry = True, severity = ''medium''\<rparr>"
  by code_simp

lemma classify_reverted:
  "classifyError reverted = \<lparr>type = ''contract'', canRetry = False, severity = ''high''\<rparr>"
  by code_simp

lemma month_state_eq: "month_state = month_set ''p1'' (JStr ''p1'')"
  by code_simp

lemma number_key_state_eq: "number_key_state = month_set ''1'' (JNum 1)"
  by code_simp

lemma month_timeout:
  "run_events js [(5001, Timeout ''p1'')] (month_set ''p1'' (JStr ''p1'')) = month_gone"
  "run_events js [(5001, Timeout ''1'')] (month_set ''1'' (JNum 1)) = month_gone"
  by code_simp+

lemma month_get:
  "fst (get js (JStr ''p1'') no_get_options 6000 (month_set ''p1'' (JStr ''p1'')))
     = JObj [(''id'', JNum 1)]"
  "fst (get js (JStr ''1'') no_get_options 6000 (month_set ''1'' (JNum 1)))
     = JObj [(''id'', JNum 1)]"
  "fst (get js (JStr ''p1'') no_get_options 6000 month_gone) = JNull"
  "fst (get js (JStr ''1'') no_get_options 6000 month_gone) = JNull"
  by code_simp+

text \<open>With a time to live that the timer of the platform holds, the entry outlives the
  sweep and the timers that are ready.\<close>

lemma p1_survives_events:
  "fst (get js (JStr ''p1'') no_get_options 5500
          (run_events js [(5200, Sweep), (5300, Timeout ''p1'')] p1_state))
     = JObj [(''id'', JNum 1)]"
proof -
  have t: "ttl_of (new_cache (cap_options 100)) p1_options = 1000"
    by (simp add: ttl_of_def p1_options_def)
  have "fst (get js (JStr ''p1'') no_get_options 5500
          (run_events js [(5200, Sweep), (5300, Timeout ''p1'')]
             (snd (set_op js (JStr ''p1'') (JObj [(''id'', JNum 1)]) p1_options 5000
                (new_cache (cap_options 100))))))
     = cloneData js (cloneData js (JObj [(''id'', JNum 1)]))"
    by (rule set_then_get_later [OF sound_new_cache refl]) (simp_all add: t js_timer_delay_small)
  moreover have "json_serializable js (JObj [(''id'', JNum 1)])"
    by code_simp
  ultimately show ?thesis
    by (simp add: p1_state_def cloneData_serializable)
qed

text \<open>The sweep, which goes by \<open>expiresAt\<close>, keeps the entry of a month; and the entry is
  lost in the same way when the month is the \<open>ttl\<close> of the call.\<close>

lemma month_sweep_keeps:
  "run_events js [(5001, Sweep)] (month_set ''p1'' (JStr ''p1'')) = month_set ''p1'' (JStr ''p1'')"
  by code_simp

lemma month_option_dropped:
  "fst (get js (JStr ''p1'') no_get_options 6000
          (run_events js [(5001, Timeout ''p1'')]
             (snd (set_op js (JStr ''p1'') (JObj [(''id'', JNum 1)]) month_options 5000
                     (new_cache (cap_options 100)))))) = JNull"
  by code_simp

text \<open>A string key that is the text of a number in another spelling is not stable:
  \<open>JSON.parse("1.0")\<close> is the number 1, whose normalized form is \<open>"1"\<close>.\<close>

lemma fraction_key_unstable: "\<not> stable_key js ''1.0''"
  by code_simp

text \<open>The texts that the runs hand to \<open>JSON.parse\<close> have values in the model.\<close>

lemma parsed_texts:
  "list_all (\<lambda>text. js_parse text \<noteq> Unmodelled)
     [quoted_x, [], ''a'', ''b'', ''c'', ''x'', ''y'', ''1'', ''p1'',
      js_stringify (JObj [(''id'', JNum 1)])]"
  by code_simp

section \<open>The properties of the specification\<close>

text \<open>
  C1. \<open>set(k, v)\<close> followed by \<open>get(k)\<close> before the time to live of the entry has
  elapsed returns a value deep-equal to \<open>v\<close>. It fails on the manager
  \<open>new CacheManager({defaultTTL: 2592000000})\<close>: \<open>set("p1", {id: 1})\<close> at time 5000 stores
  an entry that expires at 2592005000 and hands \<open>setTimeout\<close> a delay above 2147483647,
  for which the callback \<open>this.delete(key)\<close> is ready at once. Until the callback runs
  \<open>get("p1")\<close> returns the value; once it has run, at 5001, \<open>get("p1")\<close> at 6000 returns
  \<open>null\<close>, on an entry that \<open>isExpired\<close> does not find expired.
\<close>

theorem long_ttl_entry_dropped:
  "ttl_of (new_cache month_cache_options) no_set_options = 2592000000
   \<and> map_of (cache month_state) ''p1'' = Some month_entry
   \<and> \<not> isExpired 6000 month_entry
   \<and> map_of (timers month_state) ''p1'' = Some (Pending 5000 (JStr ''p1''))
   \<and> fst (get js (JStr ''p1'') no_get_options 6000 month_state) = JObj [(''id'', JNum 1)]
   \<and> fst (get js (JStr ''p1'') no_get_options 6000
            (run_events js [(5001, Timeout ''p1'')] month_state)) = JNull"
proof -
  have "ttl_of (new_cache month_cache_options) no_set_options = 2592000000"
    by (simp add: ttl_of_def no_set_options_def new_cache_def month_cache_options_def)
  moreover have "map_of (cache month_state) ''p1'' = Some month_entry"
    by (simp add: month_state_eq month_set_def)
  moreover have "\<not> isExpired 6000 month_entry"
    by (simp add: month_entry_def isExpired_def)
  moreover have "map_of (timers month_state) ''p1'' = Some (Pending 5000 (JStr ''p1''))"
    by (simp add: month_state_eq month_set_def)
  moreover have "fst (get js (JStr ''p1'') no_get_options 6000 month_state)
      = JObj [(''id'', JNum 1)]"
    by (simp only: month_state_eq month_get)
  moreover have "fst (get js (JStr ''p1'') no_get_options 6000
      (run_events js [(5001, Timeout ''p1'')] month_state)) = JNull"
    by (simp only: month_state_eq month_timeout month_get)
  ultimately show ?thesis
    by (simp only: simp_thms)
qed

text \<open>
  C2. For every key whose entry was stored with a time to live above zero, once the clock
  is past \<open>expiresAt\<close> of the entry, \<open>get\<close> returns the miss value, which is \<open>null\<close> or the
  default of the caller, and the access removes the entry from the cache. The entry is as
  \<open>set\<close> wrote it: \<open>expiresAt\<close> is the time of the \<open>set\<close> plus the time to live
  (lemma \<open>set_op_lookup\<close>). The sweep removes the expired entries of a cache of
  stable keys as well (lemma \<open>cleanupExpired_stable\<close>).
\<close>

theorem expired_get_misses:
  assumes "map_of (cache s) (normalizeKey P k) = Some e"
    and "0 < e_ttl e"
    and "e_expiresAt e = int (e_timestamp e) + e_ttl e"
    and "e_expiresAt e < int now"
  shows "fst (get P k gopts now s) = miss_value gopts
     \<and> (fst (get P k gopts now s) = JNull \<or> defaultValue gopts = Some (fst (get P k gopts now s)))
     \<and> map_of (cache (snd (get P k gopts now s))) (normalizeKey P k) = None"
proof -
  have "isExpired now e" using assms(2-4) by (simp add: isExpired_def)
  with assms(1) have g: "get P k gopts now s = (miss_value gopts, count_miss (snd (delete_op P k s)))"
    by (simp add: get_def Let_def)
  show ?thesis using miss_value_cases [of gopts] by (simp add: g delete_op_removes)
qed

theorem expired_get_misses_witness:
  "map_of (cache p1_state) (normalizeKey js (JStr ''p1'')) = Some p1_entry
   \<and> 0 < e_ttl p1_entry
   \<and> e_expiresAt p1_entry = int (e_timestamp p1_entry) + e_ttl p1_entry
   \<and> e_expiresAt p1_entry < int 6100
   \<and> fst (get js (JStr ''p1'') no_get_options 6100 p1_state) = JNull
   \<and> map_of (cache (snd (get js (JStr ''p1'') no_get_options 6100 p1_state)))
        (normalizeKey js (JStr ''p1'')) = None"
proof -
  have a: "map_of (cache p1_state) (normalizeKey js (JStr ''p1'')) = Some p1_entry"
    by code_simp
  have b: "0 < e_ttl p1_entry"
    and c: "e_expiresAt p1_entry = int (e_timestamp p1_entry) + e_ttl p1_entry"
    and d: "e_expiresAt p1_entry < int 6100"
    by (simp_all add: p1_entry_def)
  have m: "miss_value no_get_options = JNull"
    by (simp add: miss_value_def no_get_options_def)
  from expired_get_misses [OF a b c d, of no_get_options] a b c d m show ?thesis
    by simp
qed

text \<open>
  C3. For \<open>maxSize\<close> at least 1, after a sequence of \<open>set\<close> calls on an empty cache the
  cache holds at most \<open>maxSize\<close> entries. The code does not keep it: with \<open>maxSize = 1\<close>,
  \<open>set('"x"', 1)\<close> and then \<open>set('a', 2)\<close> leave two entries, and so do \<open>set('', 1)\<close> and
  \<open>set('a', 2)\<close>. In the first run \<open>evictLeastUsed\<close> selects \<open>"x"\<close> and deletes
  \<open>denormalizeKey('"x"')\<close>, the key \<open>x\<close>, which is not in the cache; in the second the
  selected key is the empty string, which \<open>if (leastUsedKey)\<close> takes for no key. Lemma
  \<open>set_seq_bounded\<close> has the bound for keys that are stable and not empty.
\<close>

theorem maxSize_exceeded:
  "maxSize (options over_capacity_run) = 1 \<and> length (cache over_capacity_run) = 2
   \<and> maxSize (options empty_key_run) = 1 \<and> length (cache empty_key_run) = 2"
  by (simp add: over_capacity_run_eq empty_key_run_eq state_of_def cap_options_def)

text \<open>
  C4, as stated: a \<open>set\<close> of a new key on a cache that holds \<open>maxSize\<close> entries removes
  exactly one entry that was there. It fails on the empty cache of a manager with
  \<open>maxSize = 0\<close>, where there is nothing to remove: \<open>evictLeastUsed\<close> finds no key and
  \<open>set\<close> inserts.
\<close>

theorem zero_capacity_counterexample:
  "int (length (cache (new_cache (cap_options 0)))) = maxSize (options (new_cache (cap_options 0)))
   \<and> map_of (cache (new_cache (cap_options 0))) (normalizeKey js (JStr ''a'')) = None
   \<and> cache (new_cache (cap_options 0)) = []
   \<and> map fst (cache (snd (set_op js (JStr ''a'') (JNum 1) no_set_options 1000
                             (new_cache (cap_options 0))))) = [''a'']"
  by (simp add: new_cache_state_of zero_capacity_first) (simp add: state_of_def cap_options_def)

text \<open>
  C4, amended: on a tidy cache that is not empty and holds at least \<open>maxSize\<close> entries, a
  \<open>set\<close> of a new key removes exactly one entry that was there and appends the new one, so
  the cache keeps its size; a \<open>set\<close> of a key that is present removes nothing; and after
  any \<open>set\<close> the key is in the cache: the entry inserted is never the one evicted.
\<close>

theorem full_set_evicts_one:
  assumes "tidy P s"
    and "cache s \<noteq> []"
    and "maxSize (options s) \<le> int (length (cache s))"
  shows "(map_of (cache s) (normalizeKey P k) = None \<longrightarrow>
            (\<exists>k0 e0 entry. (k0, e0) \<in> set (cache s)
               \<and> cache (snd (set_op P k v opts now s))
                    = AList.delete k0 (cache s) @ [(normalizeKey P k, entry)])
            \<and> length (cache (snd (set_op P k v opts now s))) = length (cache s))
       \<and> (map_of (cache s) (normalizeKey P k) \<noteq> None \<longrightarrow>
            map fst (cache (snd (set_op P k v opts now s))) = map fst (cache s))
       \<and> map_of (cache (snd (set_op P k v opts now s))) (normalizeKey P k) \<noteq> None"
proof (intro conjI impI)
  assume new: "map_of (cache s) (normalizeKey P k) = None"
  have d: "distinct (map fst (cache s))"
    and st: "\<forall>key \<in> fst ` set (cache s). stable_key P key \<and> key \<noteq> []"
    using assms(1) by (simp_all add: tidy_def)
  obtain k0 e0 where k0: "(k0, e0) \<in> set (cache s)"
    "cache (evictLeastUsed P s) = AList.delete k0 (cache s)"
    using evictLeastUsed_stable [OF assms(2) d st] by blast
  obtain entry where "cache (snd (set_op P k v opts now s))
      = AList.update (normalizeKey P k) entry (cache (evictLeastUsed P s))"
    using cache_set_op [of P k v opts now s] new assms(3) by auto
  then have c: "cache (snd (set_op P k v opts now s))
      = AList.delete k0 (cache s) @ [(normalizeKey P k, entry)]"
    using k0(2) new by (simp add: update_new map_of_delete_other)
  then show "\<exists>k0 e0 entry. (k0, e0) \<in> set (cache s)
               \<and> cache (snd (set_op P k v opts now s))
                    = AList.delete k0 (cache s) @ [(normalizeKey P k, entry)]"
    using k0(1) by blast
  show "length (cache (snd (set_op P k v opts now s))) = length (cache s)"
    using c length_delete_present [OF d k0(1)] by simp
next
  assume old: "map_of (cache s) (normalizeKey P k) \<noteq> None"
  obtain entry where "cache (snd (set_op P k v opts now s))
      = AList.update (normalizeKey P k) entry (cache s)"
    using cache_set_op [of P k v opts now s] old by auto
  then show "map fst (cache (snd (set_op P k v opts now s))) = map fst (cache s)"
    using old by (simp add: keys_update_old)
next
  show "map_of (cache (snd (set_op P k v opts now s))) (normalizeKey P k) \<noteq> None"
    using set_op_lookup [of P k v opts now s] by auto
qed

theorem full_set_evicts_one_witness:
  "tidy js tagged_state \<and> cache tagged_state \<noteq> []
   \<and> maxSize (options tagged_state) \<le> int (length (cache tagged_state))
   \<and> map_of (cache tagged_state) (normalizeKey js (JStr ''c'')) = None
   \<and> map fst (cache tagged_state) = [''a'', ''b'']
   \<and> map fst (cache (snd (set_op js (JStr ''c'') (JNum 3) no_set_options 3000 tagged_state)))
        = [''b'', ''c'']
   \<and> length (cache (snd (set_op js (JStr ''c'') (JNum 3) no_set_options 3000 tagged_state)))
        = length (cache tagged_state)"
proof -
  have a: "tidy js tagged_state"
    by (simp add: tidy_def tagged_state_eq state_of_def stable_a_b)
  have b: "cache tagged_state \<noteq> []"
    and c: "maxSize (options tagged_state) \<le> int (length (cache tagged_state))"
    and d: "map fst (cache tagged_state) = [''a'', ''b'']"
    by (simp_all add: tagged_state_eq state_of_def cap_options_def)
  have e: "map_of (cache tagged_state) (normalizeKey js (JStr ''c'')) = None"
    by (simp add: tagged_state_eq state_of_def normalizeKey_def)
  have f: "map fst (cache (snd (set_op js (JStr ''c'') (JNum 3) no_set_options 3000 tagged_state)))
        = [''b'', ''c'']"
    by (simp add: tagged_state_eq tagged_third) (simp add: state_of_def)
  from full_set_evicts_one [OF a b c, of "JStr ''c''" "JNum 3" no_set_options 3000] e
  have "length (cache (snd (set_op js (JStr ''c'') (JNum 3) no_set_options 3000 tagged_state)))
        = length (cache tagged_state)"
    by blast
  with a b c d e f show ?thesis
    by blast
qed

text \<open>
  On a key that is not stable the eviction removes nothing: on the full cache of \<open>"x"\<close>
  and \<open>y\<close> with \<open>maxSize = 2\<close>, \<open>set('b', 3)\<close> leaves three entries.
\<close>

lemma full_set_unstable_key:
  "int (length (cache two_entries)) = maxSize (options two_entries)
   \<and> map fst (cache two_entries) = [quoted_x, ''y'']
   \<and> map fst (cache (snd (set_op js (JStr ''b'') (JNum 3) no_set_options 3000 two_entries)))
        = [quoted_x, ''y'', ''b'']"
  by (simp add: two_entries_eq two_entries_third) (simp add: state_of_def cap_options_def)

text \<open>
  C5. The entry that an over-capacity \<open>set\<close> evicts has the least score
  \<open>(hitCount + 1) * priorityWeight * lastAccessSeconds\<close> of the cache. The code does not
  keep it: on the cache of \<open>"x"\<close>, of score 2, and \<open>x\<close>, of score 4, \<open>set('b', 3)\<close> evicts
  \<open>x\<close>. The loop does select an entry of least score (lemma
  \<open>evictLeastUsed_selects_least\<close>); the entry deleted is another one.
\<close>

theorem evicted_not_least:
  "map (\<lambda>(key, entry). (key, score twin_entries key entry)) (cache twin_entries)
     = [(quoted_x, 2), (''x'', 4)]
   \<and> map fst (cache (snd (set_op js (JStr ''b'') (JNum 3) no_set_options 3000 twin_entries)))
        = [quoted_x, ''b'']"
  using twin_entries_scores [OF twin_entries_eq]
  by (simp add: twin_entries_eq twin_entries_third) (simp add: state_of_def)

text \<open>
  C6, as stated: for every list of tags \<open>ts\<close>, \<open>clear({tags: ts})\<close> removes exactly the
  entries that carry a tag of \<open>ts\<close>. It fails for the empty list, which \<open>clear\<close> takes
  for no filter at all: without a pattern it removes every entry.
\<close>

theorem clear_empty_tags_counterexample:
  "\<not> (cache (clear js \<lparr>co_tags = Some [], co_pattern = None\<rparr> tagged_state)
        = filter (\<lambda>(key, entry). \<not> tagged [] entry) (cache tagged_state))"
  by (simp add: tagged_state_eq clear_def tagged_def state_of_def)

text \<open>
  C6, amended: on a cache whose keys are stable, \<open>clear({tags: ts})\<close> with \<open>ts\<close> not empty
  removes exactly the entries that carry a tag of \<open>ts\<close> and leaves every other entry in
  place and unchanged; \<open>clear({tags: []})\<close> without a pattern removes every entry.
\<close>

theorem clear_by_tags:
  assumes "distinct (map fst (cache s))"
    and "\<forall>key \<in> fst ` set (cache s). stable_key P key"
  shows "(ts \<noteq> [] \<longrightarrow>
            cache (clear P \<lparr>co_tags = Some ts, co_pattern = pat\<rparr> s)
              = filter (\<lambda>(key, entry). \<not> tagged ts entry) (cache s))
       \<and> cache (clear P \<lparr>co_tags = Some [], co_pattern = None\<rparr> s) = []"
proof -
  have "cache (clear_tags_loop P ts (cache s) s)
          = [] @ filter (\<lambda>(key, entry). \<not> tagged ts entry) (cache s)"
    using assms by (intro clear_tags_loop_cache) auto
  then show ?thesis
    by (cases ts) (simp_all add: clear_def)
qed

theorem clear_by_tags_witness:
  "distinct (map fst (cache tagged_state))
   \<and> map fst (cache tagged_state) = [''a'', ''b'']
   \<and> stable_key js ''a'' \<and> stable_key js ''b''
   \<and> map (\<lambda>(key, entry). (key, e_tags entry)) (cache tagged_state)
        = [(''a'', [''x'']), (''b'', [])]
   \<and> map fst (cache (clear js \<lparr>co_tags = Some [''x''], co_pattern = None\<rparr> tagged_state)) = [''b'']
   \<and> cache (clear js \<lparr>co_tags = Some [], co_pattern = None\<rparr> tagged_state) = []"
proof -
  have a: "distinct (map fst (cache tagged_state))"
    by (simp add: tagged_state_eq state_of_def)
  have b: "\<forall>key \<in> fst ` set (cache tagged_state). stable_key js key"
    by (simp add: tagged_state_eq state_of_def stable_a_b)
  have c: "map fst (filter (\<lambda>(key, entry). \<not> tagged [''x''] entry) (cache tagged_state)) = [''b'']"
    by (simp add: tagged_state_eq state_of_def tagged_def)
  have d: "map fst (cache tagged_state) = [''a'', ''b'']"
    and e: "map (\<lambda>(key, entry). (key, e_tags entry)) (cache tagged_state)
        = [(''a'', [''x'']), (''b'', [])]"
    by (simp_all add: tagged_state_eq state_of_def)
  from clear_by_tags [OF a b, of "[''x'']" None] a c d e stable_a_b show ?thesis
    by simp
qed



text \<open>
  C8. When the error \<open>fn\<close> throws classifies as contract, validation or permission,
  \<open>retry\<close> calls \<open>fn\<close> once and throws that error without sleeping. The errors that can
  be retried are those classified as network, wallet, timeout or unknown.
\<close>

theorem non_retryable_not_retried:
  "(type (classifyError e) \<in> {''contract'', ''validation'', ''permission''} \<and> fn 0 = Inl e
     \<longrightarrow> retry config fn = \<lparr>outcome = Inl (Some e), invocations = 1, sleeps = []\<rparr>)
   \<and> (canRetry (classifyError e)
        \<longleftrightarrow> type (classifyError e) \<in> {''network'', ''wallet'', ''timeout'', ''unknown''})
   \<and> (\<not> canRetry (classifyError e)
        \<longleftrightarrow> type (classifyError e) \<in> {''contract'', ''validation'', ''permission''})"
proof -
  have a: "canRetry (classifyError e)
        \<longleftrightarrow> type (classifyError e) \<in> {''network'', ''wallet'', ''timeout'', ''unknown''}"
    by (simp add: classifyError_def Let_def)
  have b: "\<not> canRetry (classifyError e)
        \<longleftrightarrow> type (classifyError e) \<in> {''contract'', ''validation'', ''permission''}"
    by (simp add: classifyError_def Let_def)
  have "retry config fn = \<lparr>outcome = Inl (Some e), invocations = 1, sleeps = []\<rparr>"
    if "\<not> canRetry (classifyError e)" "fn 0 = Inl e"
    using that by (simp add: retry_def retry_loop.simps [of config fn 0])
  with a b show ?thesis by blast
qed

theorem non_retryable_not_retried_witness:
  "type (classifyError reverted) \<in> {''contract'', ''validation'', ''permission''}
   \<and> always_reverted 0 = Inl reverted
   \<and> retry retryConfig always_reverted
        = \<lparr>outcome = Inl (Some reverted), invocations = 1, sleeps = []\<rparr>
   \<and> \<not> canRetry (classifyError reverted)
   \<and> canRetry (classifyError network_down)"
proof -
  have a: "type (classifyError reverted) \<in> {''contract'', ''validation'', ''permission''}"
    by (simp add: classify_reverted)
  have b: "always_reverted 0 = Inl reverted"
    by (simp add: always_reverted_def)
  from non_retryable_not_retried [of reverted always_reverted retryConfig] a b
  have c: "retry retryConfig always_reverted
        = \<lparr>outcome = Inl (Some reverted), invocations = 1, sleeps = []\<rparr>"
    and d: "\<not> canRetry (classifyError reverted)"
    by blast+
  from non_retryable_not_retried [of network_down always_down retryConfig]
  have e: "canRetry (classifyError network_down)"
    by (simp add: classify_network_down)
  from a b c d e show ?thesis
    by blast
qed

text \<open>
  C9, as stated: on a key that is absent or expired, \<open>get(k, {defaultValue: d})\<close> returns
  \<open>d\<close> for every \<open>d\<close>. It fails for a falsy default such as \<open>0\<close>, which
  \<open>options.defaultValue || null\<close> replaces by \<open>null\<close>.
\<close>

theorem falsy_default_counterexample:
  "fst (get js (JStr ''missing'') \<lparr>defaultValue = Some (JNum 0)\<rparr> 1000 (new_cache (cap_options 100)))
     \<noteq> JNum 0"
  by (simp add: get_def Let_def new_cache_def normalizeKey_def miss_value_def)

text \<open>
  C9, amended: on a key that is absent or expired, \<open>get(k, {defaultValue: d})\<close> returns
  \<open>d\<close> when \<open>d\<close> is truthy and \<open>null\<close> when it is falsy, and \<open>get(k)\<close> returns \<open>null\<close>; on
  a hit, \<open>get\<close> sets the last access time of the entry to the clock and adds one to its hit
  count.
\<close>

theorem get_miss_and_hit:
  "((map_of (cache s) (normalizeKey P k) = None
      \<or> (\<exists>e. map_of (cache s) (normalizeKey P k) = Some e \<and> isExpired now e))
     \<longrightarrow> fst (get P k \<lparr>defaultValue = Some d\<rparr> now s) = (if truthy d then d else JNull)
         \<and> fst (get P k \<lparr>defaultValue = None\<rparr> now s) = JNull)
   \<and> ((\<exists>e. map_of (cache s) (normalizeKey P k) = Some e \<and> \<not> isExpired now e)
     \<longrightarrow> map_of (accessTimes (snd (get P k gopts now s))) (normalizeKey P k) = Some now
         \<and> map_of (hitCount (snd (get P k gopts now s))) (normalizeKey P k)
             = Some (lookup0 (hitCount s) (normalizeKey P k) + 1))"
  by (auto simp: get_def Let_def miss_value_def update_conv')

theorem get_miss_and_hit_witness:
  "map_of (cache p1_state) (normalizeKey js (JStr ''p2'')) = None
   \<and> fst (get js (JStr ''p2'') \<lparr>defaultValue = Some (JStr ''none'')\<rparr> 5500 p1_state) = JStr ''none''
   \<and> fst (get js (JStr ''p2'') \<lparr>defaultValue = Some (JNum 0)\<rparr> 5500 p1_state) = JNull
   \<and> fst (get js (JStr ''p2'') \<lparr>defaultValue = None\<rparr> 5500 p1_state) = JNull
   \<and> map_of (cache p1_state) (normalizeKey js (JStr ''p1'')) = Some p1_entry
   \<and> e_expiresAt p1_entry = 6000
   \<and> map_of (accessTimes (snd (get js (JStr ''p1'') no_get_options 5500 p1_state)))
        (normalizeKey js (JStr ''p1'')) = Some 5500
   \<and> map_of (hitCount (snd (get js (JStr ''p1'') no_get_options 5500 p1_state)))
        (normalizeKey js (JStr ''p1'')) = Some 1"
proof -
  have a: "map_of (cache p1_state) (normalizeKey js (JStr ''p2'')) = None"
    by code_simp
  have b: "map_of (cache p1_state) (normalizeKey js (JStr ''p1'')) = Some p1_entry"
    by code_simp
  have c: "\<not> isExpired 5500 p1_entry" "e_expiresAt p1_entry = 6000"
    by (simp_all add: isExpired_def p1_entry_def)
  have h: "lookup0 (hitCount p1_state) (normalizeKey js (JStr ''p1'')) = 0"
    by code_simp
  from get_miss_and_hit [of p1_state js "JStr ''p2''" 5500 "JStr ''none''"]
       get_miss_and_hit [of p1_state js "JStr ''p2''" 5500 "JNum 0"]
       get_miss_and_hit [of p1_state js "JStr ''p1''" 5500 _ no_get_options]
       a b c h
  show ?thesis by simp
qed

text \<open>
  C10. Two keys of one normalized form denote one entry: \<open>set(k1, v)\<close> followed by
  \<open>get(k2)\<close> before expiry returns \<open>v\<close>. The number 1 and the string \<open>"1"\<close> have the
  normalized form \<open>"1"\<close>, and \<open>set(1, {id: 1})\<close> stores its entry under it, which
  \<open>get("1")\<close> returns; but on the manager of thirty days the timer of the entry, whose
  callback is \<open>this.delete(1)\<close>, is ready at once, and after it has run \<open>get("1")\<close> at
  6000 returns \<open>null\<close>, long before the entry expires.
\<close>

theorem number_key_entry_dropped:
  "normalizeKey js (JNum 1) = normalizeKey js (JStr ''1'')
   \<and> map_of (cache number_key_state) (normalizeKey js (JNum 1)) = Some month_entry
   \<and> \<not> isExpired 6000 month_entry
   \<and> fst (get js (JStr ''1'') no_get_options 6000 number_key_state) = JObj [(''id'', JNum 1)]
   \<and> fst (get js (JStr ''1'') no_get_options 6000
            (run_events js [(5001, Timeout ''1'')] number_key_state)) = JNull"
proof -
  have n: "normalizeKey js (JNum 1) = ''1''"
    by code_simp
  have "normalizeKey js (JNum 1) = normalizeKey js (JStr ''1'')"
    by code_simp
  moreover have "map_of (cache number_key_state) (normalizeKey js (JNum 1)) = Some month_entry"
    by (simp add: n number_key_state_eq month_set_def)
  moreover have "\<not> isExpired 6000 month_entry"
    by (simp add: month_entry_def isExpired_def)
  moreover have "fst (get js (JStr ''1'') no_get_options 6000 number_key_state)
      = JObj [(''id'', JNum 1)]"
    by (simp only: number_key_state_eq month_get)
  moreover have "fst (get js (JStr ''1'') no_get_options 6000
      (run_events js [(5001, Timeout ''1'')] number_key_state)) = JNull"
    by (simp only: number_key_state_eq month_timeout month_get)
  ultimately show ?thesis
    by (simp only: simp_thms)
qed

end
